theory Spec2Isabelle
  imports Complex_Main "HOL-Library.Sublist"
begin

section \<open>Python values and string helpers\<close>

text \<open>
  Values produced by \<^verbatim>\<open>json.loads\<close>, which are also the values stored in the result
  dictionary: \<open>JNull\<close> is Python's \<^verbatim>\<open>None\<close>, a \<open>JObj\<close> is a \<^verbatim>\<open>dict\<close> kept as an
  association list in insertion order (lookup takes the binding that Python kept), a
  float is carried by its text and never inspected by the program.
\<close>

datatype json =
    JNull
  | JBool bool
  | JInt int
  | JFloat string
  | JStr string
  | JArr "json list"
  | JObj "(string \<times> json) list"

text \<open>
  Exceptions that decoding, event handling and \<^verbatim>\<open>Popen\<close> can raise, each with the text
  of \<^verbatim>\<open>str(error)\<close>. \<^verbatim>\<open>JSONDecodeError\<close> is kept apart, as an outcome of decoding.
\<close>

datatype pyexc =
    AttributeError string
  | TypeError string
  | OSError string
  | RecursionError string
  | ValueError string

fun str_exc :: "pyexc \<Rightarrow> string" where
  "str_exc (AttributeError m) = m"
| "str_exc (TypeError m) = m"
| "str_exc (OSError m) = m"
| "str_exc (RecursionError m) = m"
| "str_exc (ValueError m) = m"

text \<open>
  What \<^verbatim>\<open>json.loads\<close> does with a text: it returns a value, raises
  \<^verbatim>\<open>JSONDecodeError\<close>, or raises another exception (\<^verbatim>\<open>RecursionError\<close> on deep
  nesting, \<^verbatim>\<open>ValueError\<close> on an integer of more than 4300 digits).
\<close>

datatype loaded = Loaded json | JSONDecodeError | LoadsRaised pyexc

fun type_name :: "json \<Rightarrow> string" where
  "type_name JNull = ''NoneType''"
| "type_name (JBool _) = ''bool''"
| "type_name (JInt _) = ''int''"
| "type_name (JFloat _) = ''float''"
| "type_name (JStr _) = ''str''"
| "type_name (JArr _) = ''list''"
| "type_name (JObj _) = ''dict''"

text \<open>\<^verbatim>\<open>d.get(key, default)\<close>.\<close>

definition dict_get :: "(string \<times> json) list \<Rightarrow> string \<Rightarrow> json \<Rightarrow> json" where
  "dict_get d k dflt = (case map_of d k of None \<Rightarrow> dflt | Some v \<Rightarrow> v)"

text \<open>\<^verbatim>\<open>d[key] = v\<close>: replaces the binding of a present key, appends a new key.\<close>

fun dict_set :: "(string \<times> json) list \<Rightarrow> string \<Rightarrow> json \<Rightarrow> (string \<times> json) list" where
  "dict_set [] k v = [(k, v)]"
| "dict_set ((k', v') # d) k v = (if k' = k then (k, v) # d else (k', v') # dict_set d k v)"

text \<open>
  \<^verbatim>\<open>str.strip()\<close>: the characters below 256 for which \<^verbatim>\<open>str.isspace()\<close> holds are
  removed from both ends.
\<close>

definition is_space :: "char \<Rightarrow> bool" where
  "is_space c = ((of_char c :: nat) \<in> {9, 10, 11, 12, 13, 28, 29, 30, 31, 32, 133, 160})"

definition strip :: "string \<Rightarrow> string" where
  "strip s = rev (dropWhile is_space (rev (dropWhile is_space s)))"

text \<open>\<^verbatim>\<open>sub in s\<close> on two strings: \<open>sub\<close> occurs in \<open>s\<close> as a contiguous run.\<close>

fun contains_str :: "string \<Rightarrow> string \<Rightarrow> bool" where
  "contains_str sub [] = (sub = [])"
| "contains_str sub (c # cs) = (prefix sub (c # cs) \<or> contains_str sub cs)"

text \<open>\<^verbatim>\<open>str(n)\<close> for an integer: decimal digits, a minus sign for a negative number.\<close>

definition digit_char :: "nat \<Rightarrow> char" where
  "digit_char d = char_of (48 + d)"

function show_nat :: "nat \<Rightarrow> string" where
  "show_nat n = (if n < 10 then [digit_char n] else show_nat (n div 10) @ [digit_char (n mod 10)])"
  by pat_completeness auto
termination
  by (relation "measure id") auto

declare show_nat.simps [simp del]

definition show_int :: "int \<Rightarrow> string" where
  "show_int i = (if i < 0 then CHR ''-'' # show_nat (nat (- i)) else show_nat (nat i))"

text \<open>
  \<^verbatim>\<open>sub in content\<close> for a decoded value: substring test on a string, element test on a
  list, key test on a dict, \<^verbatim>\<open>TypeError\<close> on the values that are not containers.
\<close>

fun py_in :: "string \<Rightarrow> json \<Rightarrow> pyexc + bool" where
  "py_in sub (JStr s) = Inr (contains_str sub s)"
| "py_in sub (JArr xs) = Inr (JStr sub \<in> set xs)"
| "py_in sub (JObj d) = Inr (sub \<in> fst ` set d)"
| "py_in sub v = Inl (TypeError (''argument of type '' @ [CHR 0x27] @ type_name v @ [CHR 0x27] @ '' is not iterable''))"

text \<open>\<^verbatim>\<open>agent_messages += content\<close>: defined on a string only.\<close>

fun py_concat :: "string \<Rightarrow> json \<Rightarrow> pyexc + string" where
  "py_concat a (JStr s) = Inr (a @ s)"
| "py_concat a v = Inl (TypeError (''can only concatenate str (not '' @ [CHR 0x22] @ type_name v @ [CHR 0x22] @ '') to str''))"

section \<open>The consumer: one line of the stream\<close>

text \<open>
  The variables that the body of \<^verbatim>\<open>gemini\<close> updates while it consumes the stream.
  \<open>thread_id\<close> starts as \<^verbatim>\<open>None\<close> (\<open>JNull\<close>).
\<close>

record agg =
  all_messages :: "json list"
  agent_messages :: string
  err_message :: string
  thread_id :: json

definition init_agg :: agg where
  "init_agg = \<lparr>all_messages = [], agent_messages = [], err_message = [], thread_id = JNull\<rparr>"

definition deprecation_notice :: string where
  "deprecation_notice = ''The --prompt (-p) flag has been deprecated''"

definition decode_error_tag :: string where
  "decode_error_tag = CHR 0x0A # ''[json decode error] ''"

definition unexpected_error_tag :: string where
  "unexpected_error_tag = CHR 0x0A # ''[unexpected error] ''"

text \<open>
  Lines 270-271: a \<^verbatim>\<open>session_id\<close> that is present and not \<^verbatim>\<open>None\<close> replaces the
  tracked identifier.
\<close>

definition track_session :: "agg \<Rightarrow> (string \<times> json) list \<Rightarrow> agg" where
  "track_session st d =
     (if dict_get d ''session_id'' JNull \<noteq> JNull
      then st\<lparr>thread_id := dict_get d ''session_id'' JNull\<rparr>
      else st)"

text \<open>
  Lines 260-271, after the decoded value has been appended to \<open>all_messages\<close>. A value
  that is not a dict has no \<^verbatim>\<open>get\<close> (\<^verbatim>\<open>AttributeError\<close>). The deprecation test
  \<^verbatim>\<open>continue\<close>s, which also leaves out the session update of that line.
\<close>

fun handle_event :: "agg \<Rightarrow> json \<Rightarrow> pyexc + agg" where
  "handle_event st (JObj d) =
     (let item_type = dict_get d ''type'' (JStr []);
          item_role = dict_get d ''role'' (JStr [])
      in if item_type = JStr ''message'' \<and> item_role = JStr ''assistant''
         then (let content = dict_get d ''content'' (JStr [])
               in case py_in deprecation_notice content of
                    Inl e \<Rightarrow> Inl e
                  | Inr True \<Rightarrow> Inr st
                  | Inr False \<Rightarrow>
                      (case py_concat (agent_messages st) content of
                         Inl e \<Rightarrow> Inl e
                       | Inr a \<Rightarrow> Inr (track_session (st\<lparr>agent_messages := a\<rparr>) d)))
         else Inr (track_session st d))"
| "handle_event st v =
     Inl (AttributeError ([CHR 0x27] @ type_name v @ [CHR 0x27] @ '' object has no attribute ''
            @ [CHR 0x27] @ ''get'' @ [CHR 0x27]))"

datatype flow = Continue | Break

text \<open>
  The body of the \<^verbatim>\<open>for\<close> loop, lines 257-280. \<open>loads\<close> is \<^verbatim>\<open>json.loads\<close>, a
  parameter. \<^verbatim>\<open>JSONDecodeError\<close> is logged under the length test and the loop goes
  on; any other exception, raised by the decoder or by the handling of the decoded value,
  is logged without a length test and breaks the loop. The decoded value is appended to
  \<open>all_messages\<close> before it is handled.
\<close>

definition process_line :: "(string \<Rightarrow> loaded) \<Rightarrow> agg \<Rightarrow> string \<Rightarrow> agg \<times> flow" where
  "process_line loads st line =
     (case loads (strip line) of
        JSONDecodeError \<Rightarrow>
          ((if length (err_message st) < 2000
            then st\<lparr>err_message := err_message st @ decode_error_tag @ take 200 line\<rparr>
            else st), Continue)
      | LoadsRaised error \<Rightarrow>
          (st\<lparr>err_message := err_message st @ unexpected_error_tag @ str_exc error\<rparr>, Break)
      | Loaded line_dict \<Rightarrow>
          (let st1 = st\<lparr>all_messages := all_messages st @ [line_dict]\<rparr>
           in case handle_event st1 line_dict of
                Inl error \<Rightarrow>
                  (st1\<lparr>err_message := err_message st1 @ unexpected_error_tag @ str_exc error\<rparr>,
                   Break)
              | Inr st2 \<Rightarrow> (st2, Continue)))"

text \<open>The loop over a list of lines: a \<^verbatim>\<open>break\<close> leaves the rest unread.\<close>

fun consume_lines :: "(string \<Rightarrow> loaded) \<Rightarrow> agg \<Rightarrow> string list \<Rightarrow> agg \<times> flow" where
  "consume_lines loads st [] = (st, Continue)"
| "consume_lines loads st (l # ls) =
     (case process_line loads st l of
        (st', Break) \<Rightarrow> (st', Break)
      | (st', Continue) \<Rightarrow> consume_lines loads st' ls)"

section \<open>The generator \<^verbatim>\<open>run_shell_command\<close>\<close>

text \<open>
  What the calling thread does to the process, the reader thread and the queue, with the
  bound in seconds that the call passes.
\<close>

datatype proc_op = Kill | Wait rat | Join rat | QGet rat | QGetNowait

datatype gen_ev = Yield string | Op proc_op

text \<open>
  How the generator ends: it returns, it raises \<^verbatim>\<open>GeminiTimeoutError\<close> with a message,
  \<^verbatim>\<open>Popen\<close> raises, or the observed schedule ends while the loop is still polling.
\<close>

datatype gen_end = Returned | RaisedTimeout string | RaisedOS string | Pending

text \<open>
  What \<^verbatim>\<open>output_queue.get(timeout=0.5)\<close> gives in one iteration: a line, the marker
  \<^verbatim>\<open>None\<close>, or \<^verbatim>\<open>queue.Empty\<close> together with what \<^verbatim>\<open>process.poll() is not None\<close> and
  \<^verbatim>\<open>thread.is_alive()\<close> then answer.
\<close>

datatype get_outcome = GotLine string | GotNone | QEmpty bool bool

definition timeout_message :: "int \<Rightarrow> string" where
  "timeout_message timeout =
     ''Gemini CLI execution timed out after '' @ show_int timeout @ '' seconds. '' @
     ''This may indicate the CLI is waiting for authentication or is stuck.''"

text \<open>
  Lines 127-148. Each iteration of the schedule carries the reading of
  \<^verbatim>\<open>time.time() - start_time\<close> and the outcome of the \<^verbatim>\<open>get\<close>, which is not reached
  when the deadline check fires.
\<close>

fun poll_loop :: "int \<Rightarrow> (rat \<times> get_outcome) list \<Rightarrow> gen_ev list \<times> gen_end" where
  "poll_loop timeout [] = ([], Pending)"
| "poll_loop timeout ((elapsed, g) # rest) =
     (if elapsed > of_int timeout
      then ([Op Kill, Op (Wait 2)], RaisedTimeout (timeout_message timeout))
      else (case g of
              GotLine line \<Rightarrow>
                (let (evs, e) = poll_loop timeout rest in (Op (QGet (1/2)) # Yield line # evs, e))
            | GotNone \<Rightarrow> ([Op (QGet (1/2))], Returned)
            | QEmpty exited alive \<Rightarrow>
                (if exited \<and> \<not> alive then ([Op (QGet (1/2))], Returned)
                 else (let (evs, e) = poll_loop timeout rest in (Op (QGet (1/2)) # evs, e)))))"

text \<open>Lines 150-164: \<open>waited\<close> says whether \<^verbatim>\<open>process.wait(timeout=5)\<close> returned in time.\<close>

definition cleanup :: "bool \<Rightarrow> gen_ev list" where
  "cleanup w =
     Op (Wait 5) # (if w then [] else [Op Kill, Op (Wait 2)]) @ [Op (Join 5)]"

text \<open>Lines 166-173: the items left in the queue; a marker among them is not yielded.\<close>

fun drain :: "string option list \<Rightarrow> gen_ev list" where
  "drain [] = []"
| "drain (None # q) = Op QGetNowait # drain q"
| "drain (Some line # q) = Op QGetNowait # Yield line # drain q"

record gen_env =
  popen_error :: "string option"
  sched :: "(rat \<times> get_outcome) list"
  waited :: bool
  residual :: "string option list"

definition run_shell_command :: "int \<Rightarrow> gen_env \<Rightarrow> gen_ev list \<times> gen_end" where
  "run_shell_command timeout env =
     (case popen_error env of
        Some m \<Rightarrow> ([], RaisedOS m)
      | None \<Rightarrow>
          (case poll_loop timeout (sched env) of
             (evs, Returned) \<Rightarrow> (evs @ cleanup (waited env) @ drain (residual env), Returned)
           | (evs, e) \<Rightarrow> (evs, e)))"

section \<open>The tool \<^verbatim>\<open>gemini\<close>\<close>

text \<open>How the \<^verbatim>\<open>for\<close> loop over the generator ends.\<close>

datatype loop_end = Exhausted | Broke | TimedOut string | LaunchFailed string | Unfinished

fun end_of :: "gen_end \<Rightarrow> loop_end" where
  "end_of Returned = Exhausted"
| "end_of (RaisedTimeout m) = TimedOut m"
| "end_of (RaisedOS m) = LaunchFailed m"
| "end_of Pending = Unfinished"

text \<open>
  The \<^verbatim>\<open>for\<close> loop of lines 256-280 driving the generator: the generator runs only
  between two \<^verbatim>\<open>yield\<close>s, so a \<^verbatim>\<open>break\<close> leaves its remaining events undone. The
  result carries the operations that the generator did perform.
\<close>

fun for_loop :: "(string \<Rightarrow> loaded) \<Rightarrow> agg \<Rightarrow> gen_ev list \<Rightarrow> gen_end
    \<Rightarrow> agg \<times> proc_op list \<times> loop_end" where
  "for_loop loads st [] e = (st, [], end_of e)"
| "for_loop loads st (Op x # evs) e =
     (let (st', ops, fin) = for_loop loads st evs e in (st', x # ops, fin))"
| "for_loop loads st (Yield line # evs) e =
     (case process_line loads st line of
        (st', Break) \<Rightarrow> (st', [], Broke)
      | (st', Continue) \<Rightarrow> for_loop loads st' evs e)"

text \<open>What \<^verbatim>\<open>subprocess.run(["gemini", "--version"], ...)\<close> does in the auth probe.\<close>

datatype run_outcome = Completed int string | TimeoutExpired | FileNotFound | OtherError string

fun check_gemini_auth :: "run_outcome \<Rightarrow> bool \<times> string" where
  "check_gemini_auth (Completed returncode out) = (returncode = 0, strip out)"
| "check_gemini_auth TimeoutExpired = (False, ''Gemini CLI timed out during auth check'')"
| "check_gemini_auth FileNotFound = (False, ''Gemini CLI not found in PATH'')"
| "check_gemini_auth (OtherError e) = (False, ''Auth check failed: '' @ e)"

definition no_session_text :: string where
  "no_session_text = ''Failed to get `SESSION_ID` from the gemini session.''"

definition no_reply_text :: string where
  "no_reply_text =
     ''Failed to retrieve `agent_messages` from the Gemini session. '' @
     ''This might be due to Gemini performing a tool call. '' @
     ''You can continue using the `SESSION_ID` to proceed.''"

text \<open>Lines 289-315: the verdict and the result dictionary.\<close>

definition build_result :: "agg \<Rightarrow> bool \<Rightarrow> (string \<times> json) list" where
  "build_result st with_all =
     (let (success1, err1) =
            (if thread_id st = JNull
             then (False, no_session_text @ [CHR 0x0A] @ err_message st)
             else (True, err_message st));
          (success2, err2) =
            (if success1 \<and> length (agent_messages st) = 0
             then (False, no_reply_text @ [CHR 0x0A] @ err1)
             else (success1, err1));
          result =
            (if success2
             then [(''success'', JBool True), (''SESSION_ID'', thread_id st),
                   (''agent_messages'', JStr (agent_messages st))]
             else [(''success'', JBool False), (''error'', JStr (strip err2))])
      in if with_all then dict_set result ''all_messages'' (JArr (all_messages st)) else result)"

text \<open>
  One call of the tool: the arguments that the body reads and what its environment
  answers. \<open>cd_posix\<close> is \<^verbatim>\<open>cd.absolute().as_posix()\<close>.
\<close>

record call =
  cd_exists :: bool
  cd_posix :: string
  probe :: run_outcome
  return_all_messages :: bool
  timeout :: int
  env :: gen_env

datatype outcome = Result "(string \<times> json) list" | Raises pyexc | Running

definition loop_outcome :: "(string \<Rightarrow> loaded) \<Rightarrow> call \<Rightarrow> agg \<times> proc_op list \<times> loop_end" where
  "loop_outcome loads c =
     (case run_shell_command (timeout c) (env c) of
        (evs, e) \<Rightarrow> for_loop loads init_agg evs e)"

text \<open>
  The tool returns a dictionary, lets the exception of \<^verbatim>\<open>Popen\<close> through, or is still
  polling when the observed schedule ends. The second component lists what was done to
  the process.
\<close>

definition gemini :: "(string \<Rightarrow> loaded) \<Rightarrow> call \<Rightarrow> outcome \<times> proc_op list" where
  "gemini loads c =
     (if \<not> cd_exists c
      then (Result [(''success'', JBool False),
                    (''error'', JStr (''The workspace root directory `'' @ cd_posix c @
                                      ''` does not exist.''))], [])
      else (case check_gemini_auth (probe c) of
              (auth_ok, auth_msg) \<Rightarrow>
                if \<not> auth_ok
                then (Result [(''success'', JBool False),
                              (''error'', JStr (''Gemini CLI authentication check failed: '' @
                                 auth_msg @ ''. '' @ ''Please run '' @ [CHR 0x27] @
                                 ''gemini auth login'' @ [CHR 0x27] @
                                 '' manually in your terminal.''))], [])
                else (case loop_outcome loads c of
                        (st, ops, TimedOut m) \<Rightarrow>
                          (Result [(''success'', JBool False), (''error'', JStr m),
                                   (''all_messages'',
                                      if return_all_messages c then JArr (all_messages st)
                                      else JNull)], ops)
                      | (st, ops, LaunchFailed m) \<Rightarrow> (Raises (OSError m), ops)
                      | (st, ops, Unfinished) \<Rightarrow> (Running, ops)
                      | (st, ops, _) \<Rightarrow>
                          (Result (build_result st (return_all_messages c)), ops))))"

section \<open>The reader thread \<^verbatim>\<open>read_output\<close>\<close>

text \<open>
  What \<^verbatim>\<open>process.stdout.readline\<close> gives: a line or an exception (the stream is
  decoded as strict UTF-8). The end of the list is the end of the stream.
\<close>

datatype read_outcome = ReadLine string | ReadError string

text \<open>
  What the thread does: a line read, a \<^verbatim>\<open>put\<close> with its item, its timeout and whether
  it succeeded (\<open>False\<close> is \<^verbatim>\<open>queue.Full\<close>), the sleep, \<^verbatim>\<open>terminate()\<close>, closing stdout.
\<close>

datatype relay_op =
    RRead string
  | RPut "string option" "rat option" bool
  | RSleep rat
  | RTerminate
  | RClose

datatype relay_end = Finished | Propagated string

text \<open>
  Lines 96-102: \<^verbatim>\<open>JSONDecodeError\<close>, \<^verbatim>\<open>AttributeError\<close> (a value without \<^verbatim>\<open>get\<close>) and
  \<^verbatim>\<open>TypeError\<close> count as "not completed"; any other exception of the decoder is not
  caught here.
\<close>

definition is_turn_completed :: "(string \<Rightarrow> loaded) \<Rightarrow> string \<Rightarrow> pyexc + bool" where
  "is_turn_completed loads line =
     (case loads line of
        Loaded (JObj data) \<Rightarrow> Inr (dict_get data ''type'' JNull = JStr ''turn.completed'')
      | Loaded _ \<Rightarrow> Inr False
      | JSONDecodeError \<Rightarrow> Inr False
      | LoadsRaised (AttributeError m) \<Rightarrow> Inr False
      | LoadsRaised (TypeError m) \<Rightarrow> Inr False
      | LoadsRaised error \<Rightarrow> Inl error)"

text \<open>
  Lines 108-118. \<open>full i\<close> says whether the queue stays full during the \<^verbatim>\<open>put\<close> of the
  line with index \<open>i\<close>; that line is then skipped by \<^verbatim>\<open>continue\<close>, before the
  completion test. An exception that the completion test lets through leaves the loop,
  as an exception of \<^verbatim>\<open>readline\<close> does.
\<close>

fun read_loop :: "(string \<Rightarrow> loaded) \<Rightarrow> (nat \<Rightarrow> bool) \<Rightarrow> nat \<Rightarrow> read_outcome list
    \<Rightarrow> relay_op list \<times> relay_end" where
  "read_loop loads full i [] = ([], Finished)"
| "read_loop loads full i (ReadError m # rest) = ([], Propagated m)"
| "read_loop loads full i (ReadLine line # rest) =
     (let stripped = strip line
      in if full i
         then (let (ops, e) = read_loop loads full (Suc i) rest
               in (RRead line # RPut (Some stripped) (Some 1) False # ops, e))
         else (case is_turn_completed loads stripped of
                 Inl error \<Rightarrow>
                   ([RRead line, RPut (Some stripped) (Some 1) True], Propagated (str_exc error))
               | Inr True \<Rightarrow>
                   ([RRead line, RPut (Some stripped) (Some 1) True, RSleep (3/10), RTerminate],
                    Finished)
               | Inr False \<Rightarrow>
                   (let (ops, e) = read_loop loads full (Suc i) rest
                    in (RRead line # RPut (Some stripped) (Some 1) True # ops, e))))"

text \<open>
  Lines 104-121. \<^verbatim>\<open>finally\<close> closes stdout on every exit of the loop; the final
  \<^verbatim>\<open>put(None)\<close> has no timeout and comes after the \<^verbatim>\<open>try\<close> statement, so an exception
  that leaves the loop passes it by. \<open>None\<close> as the stream is a process without stdout.
\<close>

definition read_output :: "(string \<Rightarrow> loaded) \<Rightarrow> (nat \<Rightarrow> bool) \<Rightarrow> read_outcome list option
    \<Rightarrow> relay_op list \<times> relay_end" where
  "read_output loads full stdout =
     (case stdout of
        None \<Rightarrow> ([RPut None None True], Finished)
      | Some stream \<Rightarrow>
          (case read_loop loads full 0 stream of
             (ops, Finished) \<Rightarrow> (ops @ [RClose, RPut None None True], Finished)
           | (ops, Propagated m) \<Rightarrow> (ops @ [RClose], Propagated m)))"

text \<open>How long a call can block: not at all, at most the given seconds, or without limit.\<close>

datatype bound = Immediate | Within rat | Unbounded

fun relay_bound :: "relay_op \<Rightarrow> bound" where
  "relay_bound (RRead _) = Unbounded"
| "relay_bound (RPut _ (Some t) _) = Within t"
| "relay_bound (RPut _ None _) = Unbounded"
| "relay_bound (RSleep t) = Within t"
| "relay_bound RTerminate = Immediate"
| "relay_bound RClose = Immediate"

section \<open>Notions used to state the properties\<close>

text \<open>
  The exception with which the processing of a line leaves the loop body, if any: the
  decoder's own, or the one raised while the decoded value is handled (which does not
  depend on the state).
\<close>

definition line_exception :: "(string \<Rightarrow> loaded) \<Rightarrow> string \<Rightarrow> pyexc option" where
  "line_exception loads line =
     (case loads (strip line) of
        LoadsRaised error \<Rightarrow> Some error
      | JSONDecodeError \<Rightarrow> None
      | Loaded v \<Rightarrow> (case handle_event init_agg v of Inl error \<Rightarrow> Some error | Inr st \<Rightarrow> None))"

definition line_raises :: "(string \<Rightarrow> loaded) \<Rightarrow> string \<Rightarrow> bool" where
  "line_raises loads line = (line_exception loads line \<noteq> None)"

text \<open>The lines before the first one whose processing raises: all lines when none does.\<close>

definition before_raise :: "(string \<Rightarrow> loaded) \<Rightarrow> string list \<Rightarrow> string list" where
  "before_raise loads ls = takeWhile (\<lambda>l. \<not> line_raises loads l) ls"

text \<open>The value that a line decodes to, if it does.\<close>

definition decoded :: "(string \<Rightarrow> loaded) \<Rightarrow> string \<Rightarrow> json option" where
  "decoded loads line = (case loads (strip line) of Loaded v \<Rightarrow> Some v | _ \<Rightarrow> None)"

text \<open>
  The text of an assistant message: the line decodes to a dict whose \<^verbatim>\<open>type\<close> is
  \<^verbatim>\<open>"message"\<close>, whose \<^verbatim>\<open>role\<close> is \<^verbatim>\<open>"assistant"\<close> and whose \<^verbatim>\<open>content\<close> (the empty
  string when absent) is a string.
\<close>

definition assistant_text :: "(string \<Rightarrow> loaded) \<Rightarrow> string \<Rightarrow> string option" where
  "assistant_text loads line =
     (case decoded loads line of
        Some (JObj d) \<Rightarrow>
          (if dict_get d ''type'' (JStr []) = JStr ''message'' \<and>
              dict_get d ''role'' (JStr []) = JStr ''assistant''
           then (case dict_get d ''content'' (JStr []) of JStr s \<Rightarrow> Some s | _ \<Rightarrow> None)
           else None)
      | _ \<Rightarrow> None)"

text \<open>
  A line that the deprecation test skips: an assistant message for which
  \<^verbatim>\<open>"The --prompt (-p) flag has been deprecated" in content\<close> holds.
\<close>

definition notice_line :: "(string \<Rightarrow> loaded) \<Rightarrow> string \<Rightarrow> bool" where
  "notice_line loads line =
     (case decoded loads line of
        Some (JObj d) \<Rightarrow>
          dict_get d ''type'' (JStr []) = JStr ''message'' \<and>
          dict_get d ''role'' (JStr []) = JStr ''assistant'' \<and>
          py_in deprecation_notice (dict_get d ''content'' (JStr [])) = Inr True
      | _ \<Rightarrow> False)"

text \<open>The non-null \<^verbatim>\<open>session_id\<close> that a line carries, if any.\<close>

definition session_of :: "(string \<Rightarrow> loaded) \<Rightarrow> string \<Rightarrow> json option" where
  "session_of loads line =
     (case decoded loads line of
        Some (JObj d) \<Rightarrow>
          (if dict_get d ''session_id'' JNull \<noteq> JNull
           then Some (dict_get d ''session_id'' JNull) else None)
      | _ \<Rightarrow> None)"

text \<open>The same, for the lines that the notice test does not skip.\<close>

definition tracked_session :: "(string \<Rightarrow> loaded) \<Rightarrow> string \<Rightarrow> json option" where
  "tracked_session loads line =
     (if notice_line loads line then None else session_of loads line)"

definition malformed :: "(string \<Rightarrow> loaded) \<Rightarrow> string \<Rightarrow> bool" where
  "malformed loads line = (loads (strip line) = JSONDecodeError)"

definition log_entry :: "string \<Rightarrow> string" where
  "log_entry line = decode_error_tag @ take 200 line"

text \<open>
  The error log after a run of malformed lines: a line adds its entry when the log is
  shorter than 2000 characters at that moment, and is not recorded otherwise.
\<close>

fun log_after :: "string \<Rightarrow> string list \<Rightarrow> string" where
  "log_after err [] = err"
| "log_after err (line # ls) =
     log_after (if length err < 2000 then err @ log_entry line else err) ls"

text \<open>What the first raising line of a stream leaves behind, if there is one.\<close>

definition raised_event :: "(string \<Rightarrow> loaded) \<Rightarrow> string list \<Rightarrow> json list" where
  "raised_event loads ls =
     (case dropWhile (\<lambda>l. \<not> line_raises loads l) ls of
        [] \<Rightarrow> []
      | l # rest \<Rightarrow> (case decoded loads l of Some v \<Rightarrow> [v] | None \<Rightarrow> []))"

definition raised_entry :: "(string \<Rightarrow> loaded) \<Rightarrow> string list \<Rightarrow> string" where
  "raised_entry loads ls =
     (case dropWhile (\<lambda>l. \<not> line_raises loads l) ls of
        [] \<Rightarrow> []
      | l # rest \<Rightarrow>
          (case line_exception loads l of
             Some error \<Rightarrow> unexpected_error_tag @ str_exc error
           | None \<Rightarrow> []))"

text \<open>The lines that a run of iterations hands to the consumer.\<close>

fun lines_of :: "(rat \<times> get_outcome) list \<Rightarrow> string list" where
  "lines_of [] = []"
| "lines_of ((elapsed, GotLine line) # rest) = line # lines_of rest"
| "lines_of ((elapsed, g) # rest) = lines_of rest"

text \<open>An iteration that neither fires the deadline nor leaves the polling loop.\<close>

fun keeps_polling :: "int \<Rightarrow> rat \<times> get_outcome \<Rightarrow> bool" where
  "keeps_polling t (elapsed, GotLine line) = (elapsed \<le> of_int t)"
| "keeps_polling t (elapsed, GotNone) = False"
| "keeps_polling t (elapsed, QEmpty exited alive) = (elapsed \<le> of_int t \<and> \<not> (exited \<and> \<not> alive))"

fun yielded :: "gen_ev list \<Rightarrow> string list" where
  "yielded [] = []"
| "yielded (Yield line # evs) = line # yielded evs"
| "yielded (Op x # evs) = yielded evs"

fun is_marker_put :: "relay_op \<Rightarrow> bool" where
  "is_marker_put (RPut None t ok) = True"
| "is_marker_put x = False"

fun is_line_put :: "relay_op \<Rightarrow> bool" where
  "is_line_put (RPut (Some line) t ok) = True"
| "is_line_put x = False"

fun is_read :: "relay_op \<Rightarrow> bool" where
  "is_read (RRead line) = True"
| "is_read x = False"

fun is_get :: "proc_op \<Rightarrow> bool" where
  "is_get (QGet t) = True"
| "is_get QGetNowait = True"
| "is_get x = False"

text \<open>
  What the reader does with lines that do not stop it, starting at index \<open>i\<close>: each is
  read and put, successfully unless the queue is full.
\<close>

fun relayed :: "(nat \<Rightarrow> bool) \<Rightarrow> nat \<Rightarrow> string list \<Rightarrow> relay_op list" where
  "relayed full i [] = []"
| "relayed full i (line # ls) =
     RRead line # RPut (Some (strip line)) (Some 1) (\<not> full i) # relayed full (Suc i) ls"

text \<open>The reader stops at a line that is enqueued and is the completion event.\<close>

definition stops_at :: "(string \<Rightarrow> loaded) \<Rightarrow> (nat \<Rightarrow> bool) \<Rightarrow> nat \<Rightarrow> string \<Rightarrow> bool" where
  "stops_at loads full i line = (\<not> full i \<and> is_turn_completed loads (strip line) = Inr True)"

text \<open>
  The reader goes on after a line: the line is dropped on a full queue, or it is enqueued
  and the completion test answers \<^verbatim>\<open>False\<close>.
\<close>

definition goes_on :: "(string \<Rightarrow> loaded) \<Rightarrow> (nat \<Rightarrow> bool) \<Rightarrow> nat \<Rightarrow> string \<Rightarrow> bool" where
  "goes_on loads full i line = (full i \<or> is_turn_completed loads (strip line) = Inr False)"

fun passes :: "(string \<Rightarrow> loaded) \<Rightarrow> (nat \<Rightarrow> bool) \<Rightarrow> nat \<Rightarrow> string list \<Rightarrow> bool" where
  "passes loads full i [] = True"
| "passes loads full i (line # ls) =
     (goes_on loads full i line \<and> passes loads full (Suc i) ls)"

text \<open>
  Sample texts, and the lines that \<^verbatim>\<open>readline\<close> returns for them (the text and a
  newline).
\<close>

definition text_init :: string where
  \<open>text_init = ''{"type":"init","session_id":"s1"}''\<close>

definition text_hello :: string where
  \<open>text_hello = ''{"type":"message","role":"assistant","content":"Hello"}''\<close>

definition text_user :: string where
  \<open>text_user = ''{"type":"message","role":"user","content":"Hi"}''\<close>

definition text_world :: string where
  \<open>text_world = ''{"type":"message","role":"assistant","content":" world"}''\<close>

definition notice_text :: string where
  \<open>notice_text = ''The --prompt (-p) flag has been deprecated and will be removed.''\<close>

definition text_notice :: string where
  \<open>text_notice =
     ''{"type":"message","role":"assistant","content":"The --prompt (-p) flag has been deprecated and will be removed.","session_id":"s2"}''\<close>

definition text_number :: string where
  \<open>text_number = ''{"type":"message","role":"assistant","content":5}''\<close>

definition text_completed :: string where
  \<open>text_completed = ''{"type":"turn.completed"}''\<close>

definition text_resume :: string where
  \<open>text_resume = ''{"type":"init","session_id":"s3"}''\<close>

definition text_scalar :: string where
  \<open>text_scalar = ''5''\<close>

text \<open>1100 opening brackets: the decoder raises \<^verbatim>\<open>RecursionError\<close> on this text.\<close>

definition text_deep :: string where
  "text_deep = replicate 1100 CHR ''[''"

definition deep_message :: string where
  "deep_message =
     ''maximum recursion depth exceeded while decoding a JSON array from a unicode string''"

definition line_init :: string where
  "line_init = text_init @ [CHR 0x0A]"

definition line_hello :: string where
  "line_hello = text_hello @ [CHR 0x0A]"

definition line_user :: string where
  "line_user = text_user @ [CHR 0x0A]"

definition line_world :: string where
  "line_world = text_world @ [CHR 0x0A]"

definition line_notice :: string where
  "line_notice = text_notice @ [CHR 0x0A]"

definition line_number :: string where
  "line_number = text_number @ [CHR 0x0A]"

definition line_completed :: string where
  "line_completed = text_completed @ [CHR 0x0A]"

definition line_resume :: string where
  "line_resume = text_resume @ [CHR 0x0A]"

definition line_scalar :: string where
  "line_scalar = text_scalar @ [CHR 0x0A]"

definition line_deep :: string where
  "line_deep = text_deep @ [CHR 0x0A]"

definition line_noise :: string where
  \<open>line_noise = ''Loaded cached credentials.\<newline>''\<close>

text \<open>
  A decoder for the sample texts: it agrees with \<^verbatim>\<open>json.loads\<close> on each of them and
  answers \<^verbatim>\<open>JSONDecodeError\<close> on every other text, as \<^verbatim>\<open>json.loads\<close> does on the other
  texts used below.
\<close>

definition sample_table :: "(string \<times> json) list" where
  "sample_table =
     [(text_init, JObj [(''type'', JStr ''init''), (''session_id'', JStr ''s1'')]),
      (text_hello,
         JObj [(''type'', JStr ''message''), (''role'', JStr ''assistant''),
               (''content'', JStr ''Hello'')]),
      (text_user,
         JObj [(''type'', JStr ''message''), (''role'', JStr ''user''),
               (''content'', JStr ''Hi'')]),
      (text_world,
         JObj [(''type'', JStr ''message''), (''role'', JStr ''assistant''),
               (''content'', JStr '' world'')]),
      (text_notice,
         JObj [(''type'', JStr ''message''), (''role'', JStr ''assistant''),
               (''content'', JStr notice_text), (''session_id'', JStr ''s2'')]),
      (text_number,
         JObj [(''type'', JStr ''message''), (''role'', JStr ''assistant''),
               (''content'', JInt 5)]),
      (text_completed, JObj [(''type'', JStr ''turn.completed'')]),
      (text_resume, JObj [(''type'', JStr ''init''), (''session_id'', JStr ''s3'')]),
      (text_scalar, JInt 5)]"

definition sample_loads :: "string \<Rightarrow> loaded" where
  "sample_loads s =
     (case map_of sample_table s of
        Some v \<Rightarrow> Loaded v
      | None \<Rightarrow>
          if s = text_deep then LoadsRaised (RecursionError deep_message)
          else JSONDecodeError)"

text \<open>What the consumer appends to the assistant text for a line that does not raise.\<close>

definition line_text :: "(string \<Rightarrow> loaded) \<Rightarrow> string \<Rightarrow> string" where
  "line_text loads line =
     (case assistant_text loads line of
        Some s \<Rightarrow> if contains_str deprecation_notice s then [] else s
      | None \<Rightarrow> [])"

text \<open>The events of a run of iterations that keep polling.\<close>

fun polled :: "(rat \<times> get_outcome) list \<Rightarrow> gen_ev list" where
  "polled [] = []"
| "polled ((elapsed, GotLine line) # rest) = Op (QGet (1/2)) # Yield line # polled rest"
| "polled ((elapsed, g) # rest) = Op (QGet (1/2)) # polled rest"

fun performed :: "gen_ev list \<Rightarrow> proc_op list" where
  "performed [] = []"
| "performed (Op x # evs) = x # performed evs"
| "performed (Yield line # evs) = performed evs"

text \<open>A queue that is full while the first line is put, and has room afterwards.\<close>

definition first_full :: "nat \<Rightarrow> bool" where
  "first_full i = (i = 0)"

definition never_full :: "nat \<Rightarrow> bool" where
  "never_full i = False"

text \<open>The call ends in the handler of \<^verbatim>\<open>GeminiTimeoutError\<close>.\<close>

definition timed_out :: "(string \<Rightarrow> loaded) \<Rightarrow> call \<Rightarrow> bool" where
  "timed_out loads c =
     (cd_exists c \<and> fst (check_gemini_auth (probe c)) \<and>
      (case snd (snd (loop_outcome loads c)) of TimedOut m \<Rightarrow> True | _ \<Rightarrow> False))"

text \<open>
  Sample calls. In \<open>slow_env\<close> the deadline of 300 seconds passes while the consumer
  polls an empty queue; in \<open>done_env\<close> the marker arrives after the completion event;
  \<open>silent_env\<close> delivers the init event only, \<open>noise_env\<close> an assistant message and no
  session identifier, \<open>notice_env\<close> a deprecation notice that carries a session identifier
  and then an assistant message.
\<close>

definition slow_env :: gen_env where
  "slow_env = \<lparr>popen_error = None,
     sched = [(1/10, GotLine text_init), (6/10, QEmpty False True),
              (12/10, GotLine text_hello), (3011/10, QEmpty False True),
              (3016/10, GotLine text_world)],
     waited = True, residual = []\<rparr>"

definition done_env :: gen_env where
  "done_env = \<lparr>popen_error = None,
     sched = [(1/10, GotLine text_init), (6/10, GotLine text_hello),
              (7/10, GotLine text_completed), (12/10, QEmpty False True),
              (17/10, GotNone)],
     waited = True, residual = []\<rparr>"

definition silent_env :: gen_env where
  "silent_env = \<lparr>popen_error = None,
     sched = [(1/10, GotLine text_init), (6/10, QEmpty True False)],
     waited = True, residual = []\<rparr>"

definition noise_env :: gen_env where
  "noise_env = \<lparr>popen_error = None,
     sched = [(1/10, GotLine (strip line_noise)), (2/10, GotLine text_hello),
              (6/10, GotNone)],
     waited = True, residual = []\<rparr>"

definition notice_env :: gen_env where
  "notice_env = \<lparr>popen_error = None,
     sched = [(1/10, GotLine text_notice), (2/10, GotLine text_hello),
              (6/10, GotNone)],
     waited = True, residual = []\<rparr>"

definition sample_call :: "gen_env \<Rightarrow> bool \<Rightarrow> call" where
  "sample_call en with_all = \<lparr>cd_exists = True, cd_posix = ''/work'',
     probe = Completed 0 ''0.9.0\<newline>'', return_all_messages = with_all, timeout = 300,
     env = en\<rparr>"

section \<open>One line of the stream\<close>

lemma track_session_fields:
  "all_messages (track_session st d) = all_messages st"
  "agent_messages (track_session st d) = agent_messages st"
  "err_message (track_session st d) = err_message st"
  by (simp_all add: track_session_def)

lemma py_concat_raise_any_text:
  "py_concat a v = Inl error \<longleftrightarrow> py_concat a' v = Inl error"
  by (cases v) simp_all

lemma py_concat_cases:
  obtains (is_str) s where "v = JStr s" "\<And>a. py_concat a v = Inr (a @ s)"
  | (not_str) error where "\<And>a. py_concat a v = Inl error"
  by (cases v) auto

lemma handle_event_raise_any_state:
  "handle_event st v = Inl error \<longleftrightarrow> handle_event st' v = Inl error"
proof (cases v)
  case (JObj d)
  show ?thesis
  proof (cases "dict_get d ''content'' (JStr [])" rule: py_concat_cases)
    case (is_str s)
    with JObj show ?thesis by (auto simp: Let_def split: sum.splits bool.splits)
  next
    case (not_str e)
    with JObj show ?thesis by (auto simp: Let_def split: sum.splits bool.splits)
  qed
qed simp_all

lemma process_line_raises:
  "loads (strip line) = Loaded v \<Longrightarrow>
   handle_event (st\<lparr>all_messages := all_messages st @ [v]\<rparr>) v = Inl error \<Longrightarrow>
   process_line loads st line =
     (st\<lparr>all_messages := all_messages st @ [v],
         err_message := err_message st @ unexpected_error_tag @ str_exc error\<rparr>, Break)"
  by (simp add: process_line_def)

lemma process_raising_line:
  assumes "line_exception loads line = Some error"
  shows "process_line loads st line =
    (st\<lparr>all_messages := all_messages st @ (case decoded loads line of Some v \<Rightarrow> [v] | None \<Rightarrow> []),
        err_message := err_message st @ unexpected_error_tag @ str_exc error\<rparr>, Break)"
proof (cases "loads (strip line)")
  case (Loaded v)
  with assms have "handle_event init_agg v = Inl error"
    by (auto simp: line_exception_def split: sum.splits)
  then have "handle_event (st\<lparr>all_messages := all_messages st @ [v]\<rparr>) v = Inl error"
    using handle_event_raise_any_state by blast
  with Loaded show ?thesis by (simp add: process_line_raises decoded_def)
next
  case JSONDecodeError
  with assms show ?thesis by (simp add: line_exception_def)
next
  case (LoadsRaised e)
  with assms show ?thesis by (simp add: line_exception_def process_line_def decoded_def)
qed

lemma process_quiet_line:
  assumes "\<not> line_raises loads line"
  shows "process_line loads st line =
    (st\<lparr>all_messages := all_messages st @ (case decoded loads line of Some v \<Rightarrow> [v] | None \<Rightarrow> []),
        agent_messages := agent_messages st @ line_text loads line,
        err_message := (if malformed loads line \<and> length (err_message st) < 2000
                        then err_message st @ log_entry line else err_message st),
        thread_id := (case tracked_session loads line of Some v \<Rightarrow> v | None \<Rightarrow> thread_id st)\<rparr>,
     Continue)"
proof (cases "loads (strip line)")
  case JSONDecodeError
  then show ?thesis
    by (simp add: process_line_def malformed_def log_entry_def line_text_def assistant_text_def
        tracked_session_def notice_line_def session_of_def decoded_def)
next
  case (LoadsRaised e)
  with assms show ?thesis by (simp add: line_raises_def line_exception_def)
next
  case (Loaded v)
  with assms obtain st0 where ok: "handle_event init_agg v = Inr st0"
    by (auto simp: line_raises_def line_exception_def split: sum.splits)
  then obtain d where v: "v = JObj d" by (cases v) auto
  note defs = process_line_def malformed_def line_text_def assistant_text_def
          tracked_session_def notice_line_def session_of_def track_session_def decoded_def Let_def
  show ?thesis
  proof (cases "dict_get d ''type'' (JStr []) = JStr ''message'' \<and>
                dict_get d ''role'' (JStr []) = JStr ''assistant''")
    case False
    then show ?thesis using Loaded v by (auto simp: defs)
  next
    case True
    let ?content = "dict_get d ''content'' (JStr [])"
    from ok v True obtain b where b: "py_in deprecation_notice ?content = Inr b"
      by (auto simp: Let_def split: sum.splits)
    show ?thesis
    proof (cases b)
      case True
      with b \<open>dict_get d ''type'' (JStr []) = JStr ''message'' \<and> _\<close> Loaded v show ?thesis
        by (cases ?content) (auto simp: defs)
    next
      case False
      with ok v b \<open>dict_get d ''type'' (JStr []) = JStr ''message'' \<and> _\<close>
      obtain a where "py_concat [] ?content = Inr a"
        by (auto simp: Let_def init_agg_def split: sum.splits)
      then obtain s where s: "?content = JStr s" by (cases ?content) auto
      with False b \<open>dict_get d ''type'' (JStr []) = JStr ''message'' \<and> _\<close> Loaded v show ?thesis
        by (auto simp: defs)
    qed
  qed
qed

section \<open>The loop over the lines\<close>

lemma consume_quiet:
  "\<forall>l\<in>set ls. \<not> line_raises loads l \<Longrightarrow>
   consume_lines loads st ls =
     (st\<lparr>all_messages := all_messages st @ List.map_filter (decoded loads) ls,
         agent_messages := agent_messages st @ concat (map (line_text loads) ls),
         err_message := log_after (err_message st) (filter (malformed loads) ls),
         thread_id := last (thread_id st # List.map_filter (tracked_session loads) ls)\<rparr>,
      Continue)"
proof (induction ls arbitrary: st)
  case Nil
  then show ?case by (simp add: List.map_filter_simps)
next
  case (Cons l ls)
  then show ?case
    by (cases "decoded loads l"; cases "tracked_session loads l")
       (simp_all add: process_quiet_line List.map_filter_simps)
qed

lemma consume_append_quiet:
  "\<forall>l\<in>set pre. \<not> line_raises loads l \<Longrightarrow>
   consume_lines loads st (pre @ rest) =
     consume_lines loads (fst (consume_lines loads st pre)) rest"
  by (induction pre arbitrary: st) (simp_all add: process_quiet_line)

lemma raise_cases:
  obtains (quiet) "\<forall>l\<in>set ls. \<not> line_raises loads l" "before_raise loads ls = ls"
      "raised_event loads ls = []" "raised_entry loads ls = []"
  | (raised) pre l rest error where "ls = pre @ l # rest"
      "\<forall>x\<in>set pre. \<not> line_raises loads x" "line_exception loads l = Some error"
      "before_raise loads ls = pre"
      "raised_event loads ls = (case decoded loads l of Some v \<Rightarrow> [v] | None \<Rightarrow> [])"
      "raised_entry loads ls = unexpected_error_tag @ str_exc error"
proof (cases "dropWhile (\<lambda>l. \<not> line_raises loads l) ls")
  case Nil
  then have q: "\<forall>l\<in>set ls. \<not> line_raises loads l" by (simp add: dropWhile_eq_Nil_conv)
  then have b: "before_raise loads ls = ls" by (simp add: before_raise_def)
  have r: "raised_event loads ls = []" "raised_entry loads ls = []"
    unfolding raised_event_def raised_entry_def Nil by simp_all
  show ?thesis by (rule quiet [OF q b r])
next
  case (Cons l rest)
  let ?pre = "takeWhile (\<lambda>l. \<not> line_raises loads l) ls"
  have ls: "ls = ?pre @ l # rest"
    using takeWhile_dropWhile_id [of "\<lambda>l. \<not> line_raises loads l" ls] Cons by simp
  have pre: "\<forall>x\<in>set ?pre. \<not> line_raises loads x" by (auto dest: set_takeWhileD)
  have "line_raises loads l"
    using hd_dropWhile [of "\<lambda>l. \<not> line_raises loads l" ls] Cons by auto
  then obtain error where e: "line_exception loads l = Some error"
    by (auto simp: line_raises_def)
  have b: "before_raise loads ls = ?pre" by (simp add: before_raise_def)
  have r1: "raised_event loads ls = (case decoded loads l of Some v \<Rightarrow> [v] | None \<Rightarrow> [])"
    unfolding raised_event_def Cons by simp
  have r2: "raised_entry loads ls = unexpected_error_tag @ str_exc error"
    unfolding raised_entry_def Cons by (simp add: e)
  show ?thesis by (rule raised [OF ls pre e b r1 r2])
qed

lemma consume_at_raise:
  assumes "\<forall>x\<in>set pre. \<not> line_raises loads x" and "line_exception loads l = Some error"
  shows "consume_lines loads st (pre @ l # rest) =
     (st\<lparr>all_messages := all_messages st @ List.map_filter (decoded loads) pre
                          @ (case decoded loads l of Some v \<Rightarrow> [v] | None \<Rightarrow> []),
         agent_messages := agent_messages st @ concat (map (line_text loads) pre),
         err_message := log_after (err_message st) (filter (malformed loads) pre)
                          @ unexpected_error_tag @ str_exc error,
         thread_id := last (thread_id st # List.map_filter (tracked_session loads) pre)\<rparr>,
      Break)"
proof -
  have "consume_lines loads st (pre @ l # rest) =
      consume_lines loads (fst (consume_lines loads st pre)) (l # rest)"
    using assms(1) by (rule consume_append_quiet)
  then show ?thesis
    by (simp add: consume_quiet [OF assms(1)] process_raising_line [OF assms(2)])
qed

lemma consume_lines_text:
  "agent_messages (fst (consume_lines loads st ls)) =
     agent_messages st @ concat (map (line_text loads) (before_raise loads ls))"
proof (cases rule: raise_cases [of ls loads])
  case quiet
  then show ?thesis by (simp add: consume_quiet)
next
  case (raised pre l rest error)
  then show ?thesis by (simp add: consume_at_raise)
qed

lemma consume_lines_session:
  "thread_id (fst (consume_lines loads st ls)) =
     last (thread_id st # List.map_filter (tracked_session loads) (before_raise loads ls))"
proof (cases rule: raise_cases [of ls loads])
  case quiet
  then show ?thesis by (simp add: consume_quiet)
next
  case (raised pre l rest error)
  then show ?thesis by (simp add: consume_at_raise)
qed

lemma consume_lines_events:
  "all_messages (fst (consume_lines loads st ls)) =
     all_messages st @ List.map_filter (decoded loads) (before_raise loads ls)
       @ raised_event loads ls"
proof (cases rule: raise_cases [of ls loads])
  case quiet
  then show ?thesis by (simp add: consume_quiet)
next
  case (raised pre l rest error)
  then show ?thesis by (simp add: consume_at_raise)
qed

lemma consume_lines_log:
  "err_message (fst (consume_lines loads st ls)) =
     log_after (err_message st) (filter (malformed loads) (before_raise loads ls))
       @ raised_entry loads ls"
proof (cases rule: raise_cases [of ls loads])
  case quiet
  then show ?thesis by (simp add: consume_quiet)
next
  case (raised pre l rest error)
  then show ?thesis by (simp add: consume_at_raise)
qed

lemma consume_lines_flow:
  "snd (consume_lines loads st ls) = (if before_raise loads ls = ls then Continue else Break)"
proof (cases rule: raise_cases [of ls loads])
  case quiet
  then show ?thesis by (simp add: consume_quiet)
next
  case (raised pre l rest error)
  then show ?thesis by (simp add: consume_at_raise)
qed

lemma line_text_filter:
  "concat (map (line_text loads) ls) =
   concat (filter (\<lambda>s. \<not> contains_str deprecation_notice s)
             (List.map_filter (assistant_text loads) ls))"
  by (induction ls) (auto simp: line_text_def List.map_filter_simps split: option.splits)

lemma log_entry_length: "length (log_entry line) \<le> 221"
  by (simp add: log_entry_def decode_error_tag_def)

lemma log_after_bound: "length err \<le> 2220 \<Longrightarrow> length (log_after err ms) \<le> 2220"
proof (induction ms arbitrary: err)
  case Nil
  then show ?case by simp
next
  case (Cons m ms)
  have "length (log_entry m) \<le> 221" by (rule log_entry_length)
  with Cons.prems have "length (if length err < 2000 then err @ log_entry m else err) \<le> 2220"
    by simp
  from Cons.IH [OF this] show ?case by simp
qed

lemma contains_str_iff: "contains_str sub s \<longleftrightarrow> (\<exists>p q. s = p @ sub @ q)"
proof (induction s)
  case Nil
  then show ?case by auto
next
  case (Cons c cs)
  show ?case
  proof
    assume "contains_str sub (c # cs)"
    then consider "prefix sub (c # cs)" | "contains_str sub cs" by auto
    then show "\<exists>p q. c # cs = p @ sub @ q"
    proof cases
      case 1
      then obtain q where "c # cs = sub @ q" by (auto simp: prefix_def)
      then have "c # cs = [] @ sub @ q" by simp
      then show ?thesis by blast
    next
      case 2
      with Cons obtain p q where "cs = p @ sub @ q" by blast
      then have "c # cs = (c # p) @ sub @ q" by simp
      then show ?thesis by blast
    qed
  next
    assume "\<exists>p q. c # cs = p @ sub @ q"
    then obtain p q where pq: "c # cs = p @ sub @ q" by blast
    show "contains_str sub (c # cs)"
    proof (cases p)
      case Nil
      with pq have "prefix sub (c # cs)" by (simp add: prefix_def)
      then show ?thesis by simp
    next
      case (Cons a p')
      with pq have "cs = p' @ sub @ q" by simp
      with Cons.IH show ?thesis by auto
    qed
  qed
qed

section \<open>Claims about the consumer\<close>

text \<open>
  C9. When a line decodes and the handling of the decoded value raises (anything but a
  decode error), the value has already been recorded in \<open>all_messages\<close>, the text
  \<^verbatim>\<open>[unexpected error]\<close> with the exception's message is appended to the error text
  whatever its length (no 2000-character test on this path), and the loop breaks: the
  lines after it are not processed and the generator is not resumed.
\<close>

theorem unexpected_error_stops_consumer:
  assumes "loads (strip line) = Loaded v"
    and "handle_event (st\<lparr>all_messages := all_messages st @ [v]\<rparr>) v = Inl error"
  shows "process_line loads st line =
           (st\<lparr>all_messages := all_messages st @ [v],
               err_message := err_message st @ unexpected_error_tag @ str_exc error\<rparr>, Break)
       \<and> consume_lines loads st (line # rest) = process_line loads st line
       \<and> for_loop loads st (Yield line # evs) e =
           (fst (process_line loads st line), [], Broke)"
  using assms by (simp add: process_line_raises)

theorem unexpected_error_stops_consumer_witness:
  "sample_loads (strip line_number) =
     Loaded (JObj [(''type'', JStr ''message''), (''role'', JStr ''assistant''),
                   (''content'', JInt 5)])
   \<and> handle_event
        (init_agg\<lparr>err_message := replicate 2000 CHR ''e'',
                  all_messages := [JObj [(''type'', JStr ''message''),
                     (''role'', JStr ''assistant''), (''content'', JInt 5)]]\<rparr>)
        (JObj [(''type'', JStr ''message''), (''role'', JStr ''assistant''),
               (''content'', JInt 5)])
      = Inl (TypeError (''argument of type '' @ [CHR 0x27] @ ''int'' @ [CHR 0x27] @
                        '' is not iterable''))
   \<and> err_message (fst (consume_lines sample_loads
        (init_agg\<lparr>err_message := replicate 2000 CHR ''e''\<rparr>) [line_number, line_hello]))
      = replicate 2000 CHR ''e'' @ unexpected_error_tag @
        ''argument of type '' @ [CHR 0x27] @ ''int'' @ [CHR 0x27] @ '' is not iterable''
   \<and> agent_messages (fst (consume_lines sample_loads
        (init_agg\<lparr>err_message := replicate 2000 CHR ''e''\<rparr>) [line_number, line_hello])) = []
   \<and> for_loop sample_loads (init_agg\<lparr>err_message := replicate 2000 CHR ''e''\<rparr>)
        [Yield line_number, Yield line_hello, Op (Wait 5)] Returned =
      (fst (process_line sample_loads (init_agg\<lparr>err_message := replicate 2000 CHR ''e''\<rparr>)
         line_number), [], Broke)"
proof -
  let ?v = "JObj [(''type'', JStr ''message''), (''role'', JStr ''assistant''),
                  (''content'', JInt 5)]"
  let ?st = "init_agg\<lparr>err_message := replicate 2000 CHR ''e''\<rparr>"
  have h1: "sample_loads (strip line_number) = Loaded ?v" by code_simp
  have h2: "handle_event (?st\<lparr>all_messages := all_messages ?st @ [?v]\<rparr>) ?v =
      Inl (TypeError (''argument of type '' @ [CHR 0x27] @ ''int'' @ [CHR 0x27] @
                        '' is not iterable''))"
    by (simp add: init_agg_def dict_get_def deprecation_notice_def)
  let ?err = "TypeError (''argument of type '' @ [CHR 0x27] @ ''int'' @ [CHR 0x27] @
                        '' is not iterable'')"
  note unexpected_error_stops_consumer [where loads = sample_loads and line = line_number
      and v = ?v and st = ?st and error = ?err and rest = "[line_hello]"
      and evs = "[Yield line_hello, Op (Wait 5)]" and e = Returned]
  from this [OF h1 h2] show ?thesis using h1 h2 by (simp add: init_agg_def)
qed

text \<open>
  C4, as written: the assistant text is the concatenation of all assistant contents of the
  stream, and a content is left out only when it is exactly the deprecation notice. It
  fails twice. The sample notice message contains the notice, is not equal to it, and is
  left out. And a line on which the decoder raises \<^verbatim>\<open>RecursionError\<close> ends the loop, so the
  assistant message after it is never added.
\<close>

theorem notice_substring_counterexample:
  "assistant_text sample_loads line_notice = Some notice_text
   \<and> notice_text \<noteq> deprecation_notice
   \<and> agent_messages (fst (consume_lines sample_loads init_agg [line_notice])) = []
   \<and> assistant_text sample_loads line_world = Some '' world''
   \<and> sample_loads (strip line_deep) = LoadsRaised (RecursionError deep_message)
   \<and> agent_messages (fst (consume_lines sample_loads init_agg
        [line_hello, line_deep, line_world])) = ''Hello''"
  by code_simp

text \<open>
  C4, amended. For every stream, the assistant text is the concatenation, in arrival
  order, of the string contents of the assistant messages among the lines before the
  first line whose processing raises (all lines when none raises), leaving out every
  content that contains the deprecation notice as a substring. The loop runs to the end
  exactly when no line raises.
\<close>

theorem assistant_text_in_order:
  "agent_messages (fst (consume_lines loads st ls)) =
     agent_messages st @
     concat (filter (\<lambda>s. \<not> contains_str deprecation_notice s)
               (List.map_filter (assistant_text loads) (before_raise loads ls)))
   \<and> snd (consume_lines loads st ls) = (if before_raise loads ls = ls then Continue else Break)
   \<and> (\<forall>s. contains_str deprecation_notice s \<longleftrightarrow> (\<exists>p q. s = p @ deprecation_notice @ q))"
  by (simp add: consume_lines_text consume_lines_flow line_text_filter contains_str_iff)

theorem assistant_text_in_order_witness:
  "before_raise sample_loads
     [line_init, line_noise, line_hello, line_user, line_notice, line_world, line_scalar,
      line_hello] =
     [line_init, line_noise, line_hello, line_user, line_notice, line_world]
   \<and> List.map_filter (assistant_text sample_loads)
       [line_init, line_noise, line_hello, line_user, line_notice, line_world] =
       [''Hello'', notice_text, '' world'']
   \<and> agent_messages (fst (consume_lines sample_loads init_agg
       [line_init, line_noise, line_hello, line_user, line_notice, line_world, line_scalar,
        line_hello])) = ''Hello world''
   \<and> snd (consume_lines sample_loads init_agg
       [line_init, line_noise, line_hello, line_user, line_notice, line_world, line_scalar,
        line_hello]) = Break"
proof -
  let ?ls = "[line_init, line_noise, line_hello, line_user, line_notice, line_world,
              line_scalar, line_hello]"
  let ?pre = "[line_init, line_noise, line_hello, line_user, line_notice, line_world]"
  have b: "before_raise sample_loads ?ls = ?pre" by code_simp
  have m: "List.map_filter (assistant_text sample_loads) ?pre = [''Hello'', notice_text, '' world'']"
    by code_simp
  have f: "concat (filter (\<lambda>s. \<not> contains_str deprecation_notice s)
      [''Hello'', notice_text, '' world'']) = ''Hello world''" by code_simp
  have i: "agent_messages init_agg = []" by (simp add: init_agg_def)
  have n: "?pre \<noteq> ?ls" by simp
  note t = assistant_text_in_order [of sample_loads init_agg ?ls]
  from t have "agent_messages (fst (consume_lines sample_loads init_agg ?ls)) =
      agent_messages init_agg @
      concat (filter (\<lambda>s. \<not> contains_str deprecation_notice s)
                (List.map_filter (assistant_text sample_loads) (before_raise sample_loads ?ls)))"
    by (rule conjunct1)
  then have A: "agent_messages (fst (consume_lines sample_loads init_agg ?ls)) = ''Hello world''"
    unfolding b m f i by (simp only: append_Nil)
  from t have "snd (consume_lines sample_loads init_agg ?ls) =
      (if before_raise sample_loads ?ls = ?ls then Continue else Break)"
    by (elim conjE)
  then have B: "snd (consume_lines sample_loads init_agg ?ls) = Break"
    unfolding b using n by (simp only: if_False)
  show ?thesis
    apply (intro conjI)
    apply (rule b)
    apply (rule m)
    apply (rule A)
    apply (rule B)
    done
qed

text \<open>
  C5, as written: the tracked identifier is the last non-null \<^verbatim>\<open>session_id\<close> of the
  stream. It fails twice. The sample notice line carries \<^verbatim>\<open>"s2"\<close>, but it is skipped by
  the deprecation test, and the identifier stays \<^verbatim>\<open>"s1"\<close>. And a line on which the
  decoder raises ends the loop, so the identifier \<^verbatim>\<open>"s3"\<close> of a later line is never
  seen.
\<close>

theorem skipped_line_session_counterexample:
  "session_of sample_loads line_init = Some (JStr ''s1'')
   \<and> session_of sample_loads line_notice = Some (JStr ''s2'')
   \<and> thread_id (fst (consume_lines sample_loads init_agg [line_init, line_notice])) = JStr ''s1''
   \<and> session_of sample_loads line_resume = Some (JStr ''s3'')
   \<and> thread_id (fst (consume_lines sample_loads init_agg
        [line_init, line_deep, line_resume])) = JStr ''s1''"
  by code_simp

text \<open>
  C5, amended. For every stream, the tracked identifier is the last non-null
  \<^verbatim>\<open>session_id\<close> among the lines before the first line whose processing raises, not
  counting the assistant messages skipped by the deprecation test; it is the initial value
  when there is none. A later line without an identifier, or with a null one, does not
  overwrite it.
\<close>

theorem last_session_wins:
  "thread_id (fst (consume_lines loads st ls)) =
     last (thread_id st # List.map_filter (tracked_session loads) (before_raise loads ls))"
  by (rule consume_lines_session)

theorem last_session_wins_witness:
  "before_raise sample_loads [line_init, line_hello, line_resume, line_notice, line_user] =
     [line_init, line_hello, line_resume, line_notice, line_user]
   \<and> List.map_filter (tracked_session sample_loads)
       [line_init, line_hello, line_resume, line_notice, line_user] = [JStr ''s1'', JStr ''s3'']
   \<and> thread_id (fst (consume_lines sample_loads init_agg
        [line_init, line_hello, line_resume, line_notice, line_user])) = JStr ''s3''"
proof -
  let ?ls = "[line_init, line_hello, line_resume, line_notice, line_user]"
  have b: "before_raise sample_loads ?ls = ?ls" by code_simp
  have r: "List.map_filter (tracked_session sample_loads) ?ls = [JStr ''s1'', JStr ''s3'']"
    by code_simp
  have i: "thread_id init_agg = JNull" by (simp add: init_agg_def)
  have l: "last (JNull # [JStr ''s1'', JStr ''s3'']) = JStr ''s3''" by simp
  have T: "thread_id (fst (consume_lines sample_loads init_agg ?ls)) = JStr ''s3''"
    using last_session_wins [of sample_loads init_agg ?ls] unfolding b r i l .
  show ?thesis
    apply (intro conjI)
    apply (rule b)
    apply (rule r)
    apply (rule T)
    done
qed

text \<open>
  C7, as written: \<open>all_messages\<close> holds every decoded event, there is one log entry per
  malformed line and the log has at most 2000 characters. It fails. Of eleven malformed
  lines of 200 characters the log holds ten entries, 2210 characters in all. And a line
  on which the decoder raises \<^verbatim>\<open>RecursionError\<close> is logged as an unexpected error and ends
  the loop, so the valid event after it is not recorded.
\<close>

theorem error_log_cap_counterexample:
  "malformed sample_loads (replicate 200 CHR ''x'')
   \<and> err_message (fst (consume_lines sample_loads init_agg
        (replicate 11 (replicate 200 CHR ''x''))))
      = concat (replicate 10 (log_entry (replicate 200 CHR ''x'')))
   \<and> length (err_message (fst (consume_lines sample_loads init_agg
        (replicate 11 (replicate 200 CHR ''x''))))) = 2210
   \<and> decoded sample_loads line_hello =
        Some (JObj [(''type'', JStr ''message''), (''role'', JStr ''assistant''),
                    (''content'', JStr ''Hello'')])
   \<and> consume_lines sample_loads init_agg [line_deep, line_hello] =
        (\<lparr>all_messages = [], agent_messages = [],
          err_message = unexpected_error_tag @ deep_message, thread_id = JNull\<rparr>, Break)"
  by code_simp

text \<open>
  C7, amended. For every stream, \<open>all_messages\<close> holds exactly the values decoded from
  the lines up to and including the first line whose processing raises (all lines when
  none raises), in order. Among the lines before that point, a malformed line is recorded,
  as the tag followed by at most 200 characters of the line, exactly when the error log is
  shorter than 2000 characters at that moment; this part of the log never exceeds 2220
  characters. A raising line adds one \<^verbatim>\<open>[unexpected error]\<close> entry and ends the loop.
\<close>

theorem decode_resilience:
  "all_messages (fst (consume_lines loads init_agg ls)) =
     List.map_filter (decoded loads) (before_raise loads ls) @ raised_event loads ls
   \<and> err_message (fst (consume_lines loads init_agg ls)) =
       log_after [] (filter (malformed loads) (before_raise loads ls)) @ raised_entry loads ls
   \<and> length (log_after [] (filter (malformed loads) (before_raise loads ls))) \<le> 2220
   \<and> (\<forall>err l rest. log_after err (l # rest) =
         log_after (if length err < 2000 then err @ decode_error_tag @ take 200 l else err) rest)
   \<and> (\<forall>err. log_after err [] = err)
   \<and> (before_raise loads ls = ls \<longrightarrow> raised_event loads ls = [] \<and> raised_entry loads ls = [])"
proof -
  have i: "err_message init_agg = []" "all_messages init_agg = []"
    by (simp_all add: init_agg_def)
  have a: "all_messages (fst (consume_lines loads init_agg ls)) =
     List.map_filter (decoded loads) (before_raise loads ls) @ raised_event loads ls"
    using consume_lines_events [of loads init_agg ls] i by simp
  have b: "err_message (fst (consume_lines loads init_agg ls)) =
       log_after [] (filter (malformed loads) (before_raise loads ls)) @ raised_entry loads ls"
    using consume_lines_log [of loads init_agg ls] i by simp
  have c: "length (log_after [] (filter (malformed loads) (before_raise loads ls))) \<le> 2220"
    by (rule log_after_bound) simp
  have d: "before_raise loads ls = ls \<longrightarrow> raised_event loads ls = [] \<and> raised_entry loads ls = []"
  proof (cases rule: raise_cases [of ls loads])
    case quiet
    then show ?thesis by simp
  next
    case (raised pre l rest error)
    then show ?thesis by auto
  qed
  show ?thesis using a b c d by (simp add: log_entry_def)
qed

theorem decode_resilience_witness:
  "before_raise sample_loads [line_noise, line_init, ''{broken'', line_hello] =
     [line_noise, line_init, ''{broken'', line_hello]
   \<and> all_messages (fst (consume_lines sample_loads init_agg
        [line_noise, line_init, ''{broken'', line_hello])) =
      [JObj [(''type'', JStr ''init''), (''session_id'', JStr ''s1'')],
       JObj [(''type'', JStr ''message''), (''role'', JStr ''assistant''),
             (''content'', JStr ''Hello'')]]
   \<and> err_message (fst (consume_lines sample_loads init_agg
        [line_noise, line_init, ''{broken'', line_hello])) =
      log_entry line_noise @ log_entry ''{broken''"
proof -
  let ?ls = "[line_noise, line_init, ''{broken'', line_hello]"
  have b: "before_raise sample_loads ?ls = ?ls" by code_simp
  have r: "List.map_filter (decoded sample_loads) ?ls =
      [JObj [(''type'', JStr ''init''), (''session_id'', JStr ''s1'')],
       JObj [(''type'', JStr ''message''), (''role'', JStr ''assistant''),
             (''content'', JStr ''Hello'')]]" by code_simp
  have e: "log_after [] (filter (malformed sample_loads) ?ls) =
      log_entry line_noise @ log_entry ''{broken''" by code_simp
  have q: "raised_event sample_loads ?ls = []" "raised_entry sample_loads ?ls = []"
    by code_simp+
  note t = decode_resilience [of sample_loads ?ls]
  from t have "all_messages (fst (consume_lines sample_loads init_agg ?ls)) =
      List.map_filter (decoded sample_loads) (before_raise sample_loads ?ls)
        @ raised_event sample_loads ?ls"
    by (rule conjunct1)
  then have A: "all_messages (fst (consume_lines sample_loads init_agg ?ls)) =
      [JObj [(''type'', JStr ''init''), (''session_id'', JStr ''s1'')],
       JObj [(''type'', JStr ''message''), (''role'', JStr ''assistant''),
             (''content'', JStr ''Hello'')]]"
    unfolding b r q by (simp only: append_Nil2)
  from t have "err_message (fst (consume_lines sample_loads init_agg ?ls)) =
      log_after [] (filter (malformed sample_loads) (before_raise sample_loads ?ls))
        @ raised_entry sample_loads ?ls"
    by (elim conjE)
  then have B: "err_message (fst (consume_lines sample_loads init_agg ?ls)) =
      log_entry line_noise @ log_entry ''{broken''"
    unfolding b e q by (simp only: append_Nil2)
  show ?thesis
    apply (intro conjI)
    apply (rule b)
    apply (rule A)
    apply (rule B)
    done
qed

section \<open>The generator and the loop that drives it\<close>

lemma poll_loop_prefix:
  "\<forall>x\<in>set pre. keeps_polling t x \<Longrightarrow>
   poll_loop t (pre @ rest) = (polled pre @ fst (poll_loop t rest), snd (poll_loop t rest))"
proof (induction pre)
  case Nil
  then show ?case by simp
next
  case (Cons x pre)
  obtain el g where x: "x = (el, g)" by (cases x)
  with Cons show ?case
    by (cases g) (auto simp: split_beta)
qed

lemma yielded_polled: "yielded (polled pre) = lines_of pre"
  by (induction pre rule: lines_of.induct) simp_all

lemma for_loop_append:
  "consume_lines loads st (yielded evs1) = (st1, Continue) \<Longrightarrow>
   for_loop loads st (evs1 @ evs2) e =
     (fst (for_loop loads st1 evs2 e),
      performed evs1 @ fst (snd (for_loop loads st1 evs2 e)),
      snd (snd (for_loop loads st1 evs2 e)))"
proof (induction evs1 arbitrary: st)
  case Nil
  then show ?case by simp
next
  case (Cons ev evs1)
  show ?case
  proof (cases ev)
    case (Op x)
    with Cons show ?thesis by (simp add: split_beta)
  next
    case (Yield line)
    obtain st' fl where p: "process_line loads st line = (st', fl)"
      by (cases "process_line loads st line")
    with Cons.prems Yield have fl: "fl = Continue" by (cases fl) auto
    with Cons.prems Yield p have "consume_lines loads st' (yielded evs1) = (st1, Continue)"
      by simp
    from Cons.IH [OF this] show ?thesis using Yield p fl by simp
  qed
qed

lemma for_loop_state:
  "fst (for_loop loads st evs e) = fst (consume_lines loads st (yielded evs))"
proof (induction evs arbitrary: st)
  case Nil
  then show ?case by simp
next
  case (Cons ev evs)
  show ?case
  proof (cases ev)
    case (Op x)
    with Cons show ?thesis by (simp add: split_beta)
  next
    case (Yield line)
    obtain st' fl where p: "process_line loads st line = (st', fl)"
      by (cases "process_line loads st line")
    with Cons Yield show ?thesis by (cases fl) simp_all
  qed
qed

lemma timeout_message_mentions: "\<exists>p q. timeout_message t = p @ show_int t @ q"
  unfolding timeout_message_def by blast

lemma deadline_fires:
  assumes "popen_error en = None"
    and "sched en = pre @ (elapsed, g) # post"
    and "\<forall>x\<in>set pre. keeps_polling t x"
    and "of_int t < elapsed"
  shows "run_shell_command t en =
           (polled pre @ [Op Kill, Op (Wait 2)], RaisedTimeout (timeout_message t))"
  using assms by (simp add: run_shell_command_def poll_loop_prefix)

text \<open>
  C3. When the deadline check finds the elapsed time above the configured timeout, after
  iterations that kept polling and whose lines the consumer processed without breaking,
  the process is killed (then waited for, at most 2 seconds) and the call returns a
  failure whose error text contains the decimal timeout value; \<open>all_messages\<close> holds the
  events decoded so far when the caller asked for them, and \<^verbatim>\<open>None\<close> otherwise.
\<close>

theorem timeout_kills_and_fails:
  assumes "cd_exists c" and "fst (check_gemini_auth (probe c))"
    and "popen_error (env c) = None"
    and "sched (env c) = pre @ (elapsed, g) # post"
    and "\<forall>x\<in>set pre. keeps_polling (timeout c) x"
    and "of_int (timeout c) < elapsed"
    and "consume_lines loads init_agg (lines_of pre) = (st, Continue)"
  shows "gemini loads c =
           (Result [(''success'', JBool False),
                    (''error'', JStr (timeout_message (timeout c))),
                    (''all_messages'',
                       if return_all_messages c then JArr (all_messages st) else JNull)],
            performed (polled pre) @ [Kill, Wait 2])
       \<and> Kill \<in> set (snd (gemini loads c))
       \<and> (\<exists>p q. timeout_message (timeout c) = p @ show_int (timeout c) @ q)"
proof -
  have run: "run_shell_command (timeout c) (env c) =
      (polled pre @ [Op Kill, Op (Wait 2)], RaisedTimeout (timeout_message (timeout c)))"
    using assms(3-6) by (rule deadline_fires)
  have "consume_lines loads init_agg (yielded (polled pre)) = (st, Continue)"
    using assms(7) by (simp add: yielded_polled)
  from for_loop_append [OF this]
  have loop: "loop_outcome loads c =
      (st, performed (polled pre) @ [Kill, Wait 2], TimedOut (timeout_message (timeout c)))"
    by (simp add: loop_outcome_def run)
  have g: "gemini loads c =
           (Result [(''success'', JBool False),
                    (''error'', JStr (timeout_message (timeout c))),
                    (''all_messages'',
                       if return_all_messages c then JArr (all_messages st) else JNull)],
            performed (polled pre) @ [Kill, Wait 2])"
    using assms(1,2) loop by (simp add: gemini_def split_beta)
  show ?thesis
    using g timeout_message_mentions by simp
qed

theorem timeout_kills_and_fails_witness:
  "cd_exists (sample_call slow_env True)
   \<and> fst (check_gemini_auth (probe (sample_call slow_env True)))
   \<and> popen_error (env (sample_call slow_env True)) = None
   \<and> sched (env (sample_call slow_env True)) =
       [(1/10, GotLine text_init), (6/10, QEmpty False True),
        (12/10, GotLine text_hello)] @
       (3011/10, QEmpty False True) # [(3016/10, GotLine text_world)]
   \<and> keeps_polling 300 (1/10, GotLine text_init)
   \<and> keeps_polling 300 (6/10, QEmpty False True)
   \<and> keeps_polling 300 (12/10, GotLine text_hello)
   \<and> of_int (timeout (sample_call slow_env True)) < (3011/10 :: rat)
   \<and> gemini sample_loads (sample_call slow_env True) =
       (Result [(''success'', JBool False),
                (''error'', JStr (''Gemini CLI execution timed out after 300 seconds. '' @
                   ''This may indicate the CLI is waiting for authentication or is stuck.'')),
                (''all_messages'',
                   JArr [JObj [(''type'', JStr ''init''), (''session_id'', JStr ''s1'')],
                         JObj [(''type'', JStr ''message''), (''role'', JStr ''assistant''),
                               (''content'', JStr ''Hello'')]])],
        [QGet (1/2), QGet (1/2), QGet (1/2), Kill, Wait 2])"
proof -
  let ?c = "sample_call slow_env True"
  let ?pre = "[(1/10, GotLine text_init), (6/10, QEmpty False True),
               (12/10, GotLine text_hello)] :: (rat \<times> get_outcome) list"
  let ?st = "\<lparr>all_messages =
                 [JObj [(''type'', JStr ''init''), (''session_id'', JStr ''s1'')],
                  JObj [(''type'', JStr ''message''), (''role'', JStr ''assistant''),
                        (''content'', JStr ''Hello'')]],
              agent_messages = ''Hello'', err_message = [], thread_id = JStr ''s1''\<rparr>"
  have h1: "cd_exists ?c" by (simp add: sample_call_def)
  have h2: "fst (check_gemini_auth (probe ?c))" by (simp add: sample_call_def)
  have h3: "popen_error (env ?c) = None" by (simp add: sample_call_def slow_env_def)
  have h4: "sched (env ?c) = ?pre @ (3011/10, QEmpty False True) # [(3016/10, GotLine text_world)]"
    by (simp add: sample_call_def slow_env_def)
  have h5: "\<forall>x\<in>set ?pre. keeps_polling (timeout ?c) x" by (simp add: sample_call_def)
  have h6: "of_int (timeout ?c) < (3011/10 :: rat)" by (simp add: sample_call_def)
  have h7: "consume_lines sample_loads init_agg (lines_of ?pre) = (?st, Continue)" by code_simp
  have tm: "timeout_message 300 = ''Gemini CLI execution timed out after 300 seconds. '' @
                   ''This may indicate the CLI is waiting for authentication or is stuck.''"
    by code_simp
  have t: "timeout ?c = 300" "return_all_messages ?c" by (simp_all add: sample_call_def)
  from timeout_kills_and_fails [OF h1 h2 h3 h4 h5 h6 h7]
  have "gemini sample_loads ?c =
       (Result [(''success'', JBool False),
                (''error'', JStr (timeout_message 300)),
                (''all_messages'', JArr (all_messages ?st))],
        [QGet (1/2), QGet (1/2), QGet (1/2), Kill, Wait 2])"
    by (simp add: t)
  then have g: "gemini sample_loads ?c =
       (Result [(''success'', JBool False),
                (''error'', JStr (''Gemini CLI execution timed out after 300 seconds. '' @
                   ''This may indicate the CLI is waiting for authentication or is stuck.'')),
                (''all_messages'', JArr (all_messages ?st))],
        [QGet (1/2), QGet (1/2), QGet (1/2), Kill, Wait 2])"
    unfolding tm .
  have k: "keeps_polling 300 (1/10, GotLine text_init)"
    "keeps_polling 300 (6/10, QEmpty False True)"
    "keeps_polling 300 (12/10, GotLine text_hello)" by simp_all
  show ?thesis
    apply (intro conjI)
    apply (rule h1)
    apply (rule h2)
    apply (rule h3)
    apply (rule h4)
    apply (rule k(1))
    apply (rule k(2))
    apply (rule k(3))
    apply (rule h6)
    using g apply simp
    done
qed

section \<open>The verdict and the result dictionary\<close>

lemma rstrip_keeps:
  assumes "p \<noteq> []" and "\<not> is_space (last p)"
  shows "\<exists>t. rev (dropWhile is_space (rev (p @ r))) = p @ t"
proof (cases "\<forall>x\<in>set r. is_space x")
  case True
  have "dropWhile is_space (rev r @ rev p) = dropWhile is_space (rev p)"
    by (rule dropWhile_append2) (use True in simp)
  moreover have "dropWhile is_space (rev p) = rev p"
    using assms by (cases "rev p") (auto simp: last_rev hd_rev dest: arg_cong [where f = hd])
  ultimately show ?thesis by simp
next
  case False
  then have "dropWhile is_space (rev r @ rev p) = dropWhile is_space (rev r) @ rev p"
    by (auto simp: dropWhile_append1)
  then show ?thesis by simp
qed

lemma strip_keeps:
  assumes "p \<noteq> []" and "\<not> is_space (hd p)" and "\<not> is_space (last p)"
  shows "\<exists>t. strip (p @ r) = p @ t"
proof -
  have "dropWhile is_space (p @ r) = p @ r"
    using assms(1,2) by (cases p) simp_all
  then show ?thesis
    using rstrip_keeps [OF assms(1,3)] by (simp add: strip_def)
qed

lemma strip_no_session: "\<exists>t. strip (no_session_text @ r) = no_session_text @ t"
  by (rule strip_keeps) (simp_all add: no_session_text_def is_space_def)

lemma strip_no_reply: "\<exists>t. strip (no_reply_text @ r) = no_reply_text @ t"
  by (rule strip_keeps) (simp_all add: no_reply_text_def is_space_def)

lemma build_result_failed_session:
  "thread_id st = JNull \<Longrightarrow>
   build_result st w =
     [(''success'', JBool False),
      (''error'', JStr (strip (no_session_text @ [CHR 0x0A] @ err_message st)))] @
     (if w then [(''all_messages'', JArr (all_messages st))] else [])"
  by (simp add: build_result_def Let_def)

lemma build_result_failed_reply:
  "thread_id st \<noteq> JNull \<Longrightarrow> agent_messages st = [] \<Longrightarrow>
   build_result st w =
     [(''success'', JBool False),
      (''error'', JStr (strip (no_reply_text @ [CHR 0x0A] @ err_message st)))] @
     (if w then [(''all_messages'', JArr (all_messages st))] else [])"
  by (simp add: build_result_def Let_def)

lemma build_result_succeeded:
  "thread_id st \<noteq> JNull \<Longrightarrow> agent_messages st \<noteq> [] \<Longrightarrow>
   build_result st w =
     [(''success'', JBool True), (''SESSION_ID'', thread_id st),
      (''agent_messages'', JStr (agent_messages st))] @
     (if w then [(''all_messages'', JArr (all_messages st))] else [])"
  by (simp add: build_result_def Let_def)

lemma build_result_all_key:
  "(''all_messages'' \<in> fst ` set (build_result st w)) = w"
proof (cases "thread_id st = JNull")
  case True
  then show ?thesis by (cases w) (simp_all add: build_result_failed_session)
next
  case False
  then show ?thesis
    by (cases "agent_messages st = []"; cases w)
       (simp_all add: build_result_failed_reply build_result_succeeded)
qed

lemma gemini_finished:
  assumes "cd_exists c" and "fst (check_gemini_auth (probe c))"
    and "loop_outcome loads c = (st, ops, fin)" and "fin = Exhausted \<or> fin = Broke"
  shows "gemini loads c = (Result (build_result st (return_all_messages c)), ops)"
  using assms by (auto simp: gemini_def split_beta)

lemma gemini_result_cases:
  assumes "fst (gemini loads c) = Result res"
  obtains (nodir) "\<not> cd_exists c" "''all_messages'' \<notin> fst ` set res"
  | (noauth) "cd_exists c" "\<not> fst (check_gemini_auth (probe c))"
      "''all_messages'' \<notin> fst ` set res"
  | (timed) m where "cd_exists c" "fst (check_gemini_auth (probe c))"
      "snd (snd (loop_outcome loads c)) = TimedOut m"
      "res = [(''success'', JBool False), (''error'', JStr m),
              (''all_messages'', if return_all_messages c
                 then JArr (all_messages (fst (loop_outcome loads c))) else JNull)]"
  | (finished) "cd_exists c" "fst (check_gemini_auth (probe c))"
      "snd (snd (loop_outcome loads c)) = Exhausted \<or> snd (snd (loop_outcome loads c)) = Broke"
      "res = build_result (fst (loop_outcome loads c)) (return_all_messages c)"
proof (cases "cd_exists c")
  case False
  with assms have "res = [(''success'', JBool False),
      (''error'', JStr (''The workspace root directory `'' @ cd_posix c @ ''` does not exist.''))]"
    by (simp add: gemini_def)
  with False show ?thesis by (intro nodir) simp_all
next
  case True
  show ?thesis
  proof (cases "fst (check_gemini_auth (probe c))")
    case False
    with assms True have "''all_messages'' \<notin> fst ` set res"
      by (auto simp: gemini_def split_beta)
    with True False show ?thesis by (intro noauth)
  next
    case auth: True
    obtain st ops fin where lo: "loop_outcome loads c = (st, ops, fin)"
      by (cases "loop_outcome loads c")
    show ?thesis
    proof (cases fin)
      case (TimedOut m)
      with assms True auth lo show ?thesis
        by (intro timed [of m]) (auto simp: gemini_def split_beta)
    next
      case Exhausted
      with assms True auth lo show ?thesis
        by (intro finished) (auto simp: gemini_def split_beta)
    next
      case Broke
      with assms True auth lo show ?thesis
        by (intro finished) (auto simp: gemini_def split_beta)
    next
      case (LaunchFailed m)
      with assms True auth lo show ?thesis by (auto simp: gemini_def split_beta)
    next
      case Unfinished
      with assms True auth lo show ?thesis by (auto simp: gemini_def split_beta)
    qed
  qed
qed

text \<open>
  C6, as written: the result is a missing-session failure only if no non-null
  \<^verbatim>\<open>session_id\<close> was ever observed. It fails: the sample notice line carries \<^verbatim>\<open>"s2"\<close>
  and an assistant message follows, yet the notice line is skipped before the session
  update, no identifier is tracked, and the call fails with the missing-session error.
\<close>

theorem observed_session_not_tracked_counterexample:
  "session_of sample_loads text_notice = Some (JStr ''s2'')
   \<and> loop_outcome sample_loads (sample_call notice_env False) =
       (\<lparr>all_messages =
            [JObj [(''type'', JStr ''message''), (''role'', JStr ''assistant''),
                   (''content'', JStr notice_text), (''session_id'', JStr ''s2'')],
             JObj [(''type'', JStr ''message''), (''role'', JStr ''assistant''),
                   (''content'', JStr ''Hello'')]],
         agent_messages = ''Hello'', err_message = [], thread_id = JNull\<rparr>,
        [QGet (1/2), QGet (1/2), QGet (1/2), Wait 5, Join 5], Exhausted)
   \<and> fst (gemini sample_loads (sample_call notice_env False)) =
       Result [(''success'', JBool False), (''error'', JStr no_session_text)]"
  by code_simp

text \<open>
  C6, amended. When the loop over the stream has ended (exhausted or broken off), the
  result is decided in this order: no session identifier tracked gives a failure whose
  error starts with the "Failed to get SESSION_ID" sentence, whatever assistant text was
  collected; otherwise an empty assistant text gives a failure whose error starts with the
  sentences about a possible tool call and the still usable session; otherwise the result
  is a success carrying \<open>SESSION_ID\<close> and \<open>agent_messages\<close>, and no error. The tracked
  identifier is the last non-null \<^verbatim>\<open>session_id\<close> among the yielded lines before the first
  line whose processing raises, not counting the lines skipped by the deprecation test
  (\<^verbatim>\<open>None\<close> when there is none), and the assistant text is the concatenation of the kept
  assistant contents of those lines.
\<close>

theorem verdict_precedence:
  assumes "cd_exists c" and "fst (check_gemini_auth (probe c))"
    and "loop_outcome loads c = (st, ops, fin)" and "fin = Exhausted \<or> fin = Broke"
  shows "\<exists>res. fst (gemini loads c) = Result res
     \<and> (thread_id st = JNull \<longrightarrow>
          map_of res ''success'' = Some (JBool False)
        \<and> (\<exists>t. map_of res ''error'' = Some (JStr (no_session_text @ t))))
     \<and> (thread_id st \<noteq> JNull \<and> agent_messages st = [] \<longrightarrow>
          map_of res ''success'' = Some (JBool False)
        \<and> (\<exists>t. map_of res ''error'' = Some (JStr (no_reply_text @ t))))
     \<and> (thread_id st \<noteq> JNull \<and> agent_messages st \<noteq> [] \<longrightarrow>
          map_of res ''success'' = Some (JBool True)
        \<and> map_of res ''SESSION_ID'' = Some (thread_id st)
        \<and> map_of res ''agent_messages'' = Some (JStr (agent_messages st))
        \<and> map_of res ''error'' = None)
     \<and> thread_id st =
          last (JNull # List.map_filter (tracked_session loads)
                  (before_raise loads (yielded (fst (run_shell_command (timeout c) (env c))))))
     \<and> agent_messages st =
          concat (filter (\<lambda>s. \<not> contains_str deprecation_notice s)
                    (List.map_filter (assistant_text loads)
                       (before_raise loads
                          (yielded (fst (run_shell_command (timeout c) (env c)))))))"
proof -
  let ?res = "build_result st (return_all_messages c)"
  let ?ls = "yielded (fst (run_shell_command (timeout c) (env c)))"
  have g: "fst (gemini loads c) = Result ?res"
    using gemini_finished [OF assms] by simp
  have a: "thread_id st = JNull \<Longrightarrow>
      map_of ?res ''success'' = Some (JBool False)
    \<and> (\<exists>t. map_of ?res ''error'' = Some (JStr (no_session_text @ t)))"
    using strip_no_session [of "[CHR 0x0A] @ err_message st"]
    by (auto simp: build_result_failed_session)
  have b: "thread_id st \<noteq> JNull \<Longrightarrow> agent_messages st = [] \<Longrightarrow>
      map_of ?res ''success'' = Some (JBool False)
    \<and> (\<exists>t. map_of ?res ''error'' = Some (JStr (no_reply_text @ t)))"
    using strip_no_reply [of "[CHR 0x0A] @ err_message st"]
    by (auto simp: build_result_failed_reply)
  have c: "thread_id st \<noteq> JNull \<Longrightarrow> agent_messages st \<noteq> [] \<Longrightarrow>
      map_of ?res ''success'' = Some (JBool True)
    \<and> map_of ?res ''SESSION_ID'' = Some (thread_id st)
    \<and> map_of ?res ''agent_messages'' = Some (JStr (agent_messages st))
    \<and> map_of ?res ''error'' = None"
    by (simp add: build_result_succeeded)
  have st: "st = fst (consume_lines loads init_agg ?ls)"
    using assms(3)
      for_loop_state [of loads init_agg "fst (run_shell_command (timeout c) (env c))"
        "snd (run_shell_command (timeout c) (env c))"]
    by (simp add: loop_outcome_def split_beta)
  have i: "thread_id init_agg = JNull" "agent_messages init_agg = []"
    by (simp_all add: init_agg_def)
  have d: "thread_id st =
      last (JNull # List.map_filter (tracked_session loads) (before_raise loads ?ls))"
    unfolding st using consume_lines_session [of loads init_agg ?ls] i by simp
  have e: "agent_messages st =
      concat (filter (\<lambda>s. \<not> contains_str deprecation_notice s)
                (List.map_filter (assistant_text loads) (before_raise loads ?ls)))"
    unfolding st using consume_lines_text [of loads init_agg ?ls] i
    by (simp add: line_text_filter)
  show ?thesis
    using g a b c d e by blast
qed

theorem verdict_precedence_witness:
  "cd_exists (sample_call noise_env False)
   \<and> fst (check_gemini_auth (probe (sample_call noise_env False)))
   \<and> loop_outcome sample_loads (sample_call noise_env False) =
       (\<lparr>all_messages = [JObj [(''type'', JStr ''message''), (''role'', JStr ''assistant''),
                               (''content'', JStr ''Hello'')]],
         agent_messages = ''Hello'',
         err_message = log_entry (strip line_noise),
         thread_id = JNull\<rparr>,
        [QGet (1/2), QGet (1/2), QGet (1/2), Wait 5, Join 5], Exhausted)
   \<and> (\<exists>res. fst (gemini sample_loads (sample_call noise_env False)) = Result res
         \<and> map_of res ''success'' = Some (JBool False)
         \<and> (\<exists>t. map_of res ''error'' = Some (JStr (no_session_text @ t))))
   \<and> loop_outcome sample_loads (sample_call silent_env False) =
       (\<lparr>all_messages = [JObj [(''type'', JStr ''init''), (''session_id'', JStr ''s1'')]],
         agent_messages = [], err_message = [], thread_id = JStr ''s1''\<rparr>,
        [QGet (1/2), QGet (1/2), Wait 5, Join 5], Exhausted)
   \<and> (\<exists>res. fst (gemini sample_loads (sample_call silent_env False)) = Result res
         \<and> map_of res ''success'' = Some (JBool False)
         \<and> (\<exists>t. map_of res ''error'' = Some (JStr (no_reply_text @ t))))
   \<and> loop_outcome sample_loads (sample_call done_env False) =
       (\<lparr>all_messages = [JObj [(''type'', JStr ''init''), (''session_id'', JStr ''s1'')],
                         JObj [(''type'', JStr ''message''), (''role'', JStr ''assistant''),
                               (''content'', JStr ''Hello'')],
                         JObj [(''type'', JStr ''turn.completed'')]],
         agent_messages = ''Hello'', err_message = [], thread_id = JStr ''s1''\<rparr>,
        [QGet (1/2), QGet (1/2), QGet (1/2), QGet (1/2), QGet (1/2), Wait 5, Join 5],
        Exhausted)
   \<and> (\<exists>res. fst (gemini sample_loads (sample_call done_env False)) = Result res
         \<and> map_of res ''success'' = Some (JBool True)
         \<and> map_of res ''SESSION_ID'' = Some (JStr ''s1'')
         \<and> map_of res ''agent_messages'' = Some (JStr ''Hello'')
         \<and> map_of res ''error'' = None)"
proof -
  let ?a = "sample_call noise_env False"
  let ?b = "sample_call silent_env False"
  let ?c = "sample_call done_env False"
  have h1: "cd_exists (sample_call en w)" for en w by (simp add: sample_call_def)
  have h2: "fst (check_gemini_auth (probe (sample_call en w)))" for en w
    by (simp add: sample_call_def)
  have h4: "Exhausted = Exhausted \<or> Exhausted = Broke" by simp
  have a: "loop_outcome sample_loads ?a =
       (\<lparr>all_messages = [JObj [(''type'', JStr ''message''), (''role'', JStr ''assistant''),
                               (''content'', JStr ''Hello'')]],
         agent_messages = ''Hello'',
         err_message = log_entry (strip line_noise),
         thread_id = JNull\<rparr>,
        [QGet (1/2), QGet (1/2), QGet (1/2), Wait 5, Join 5], Exhausted)"
    by code_simp
  have b: "loop_outcome sample_loads ?b =
       (\<lparr>all_messages = [JObj [(''type'', JStr ''init''), (''session_id'', JStr ''s1'')]],
         agent_messages = [], err_message = [], thread_id = JStr ''s1''\<rparr>,
        [QGet (1/2), QGet (1/2), Wait 5, Join 5], Exhausted)"
    by code_simp
  have c: "loop_outcome sample_loads ?c =
       (\<lparr>all_messages = [JObj [(''type'', JStr ''init''), (''session_id'', JStr ''s1'')],
                         JObj [(''type'', JStr ''message''), (''role'', JStr ''assistant''),
                               (''content'', JStr ''Hello'')],
                         JObj [(''type'', JStr ''turn.completed'')]],
         agent_messages = ''Hello'', err_message = [], thread_id = JStr ''s1''\<rparr>,
        [QGet (1/2), QGet (1/2), QGet (1/2), QGet (1/2), QGet (1/2), Wait 5, Join 5],
        Exhausted)"
    by code_simp
  from verdict_precedence [OF h1 h2 a h4]
  have ra: "\<exists>res. fst (gemini sample_loads ?a) = Result res
         \<and> map_of res ''success'' = Some (JBool False)
         \<and> (\<exists>t. map_of res ''error'' = Some (JStr (no_session_text @ t)))"
    by auto
  from verdict_precedence [OF h1 h2 b h4]
  have rb: "\<exists>res. fst (gemini sample_loads ?b) = Result res
         \<and> map_of res ''success'' = Some (JBool False)
         \<and> (\<exists>t. map_of res ''error'' = Some (JStr (no_reply_text @ t)))"
    by auto
  from verdict_precedence [OF h1 h2 c h4]
  have rc: "\<exists>res. fst (gemini sample_loads ?c) = Result res
         \<and> map_of res ''success'' = Some (JBool True)
         \<and> map_of res ''SESSION_ID'' = Some (JStr ''s1'')
         \<and> map_of res ''agent_messages'' = Some (JStr ''Hello'')
         \<and> map_of res ''error'' = None"
    by auto
  show ?thesis
    apply (intro conjI)
    apply (rule h1)
    apply (rule h2)
    apply (rule a)
    apply (rule ra)
    apply (rule b)
    apply (rule rb)
    apply (rule c)
    apply (rule rc)
    done
qed

text \<open>
  C10. The dictionary returned after a timeout always has the key \<open>all_messages\<close>, bound
  to \<^verbatim>\<open>None\<close> when the caller did not ask for the events and to the events decoded so far
  when it did. Every other returned dictionary (missing directory, failed auth probe,
  success, missing session, empty reply) has the key only when the caller asked for it.
\<close>

theorem all_messages_key_presence:
  assumes "fst (gemini loads c) = Result res"
  shows "(timed_out loads c \<longrightarrow>
            map_of res ''all_messages'' =
              Some (if return_all_messages c
                    then JArr (all_messages (fst (loop_outcome loads c))) else JNull))
       \<and> (\<not> timed_out loads c \<longrightarrow>
            (''all_messages'' \<in> fst ` set res \<longrightarrow> return_all_messages c))"
  using assms
proof (cases rule: gemini_result_cases)
  case nodir
  then show ?thesis by (simp add: timed_out_def)
next
  case noauth
  then show ?thesis by (simp add: timed_out_def)
next
  case (timed m)
  then show ?thesis by (simp add: timed_out_def)
next
  case finished
  then show ?thesis by (auto simp: timed_out_def build_result_all_key)
qed

theorem all_messages_key_presence_witness:
  "fst (gemini sample_loads (sample_call slow_env False)) =
     Result [(''success'', JBool False),
             (''error'', JStr (''Gemini CLI execution timed out after 300 seconds. '' @
                ''This may indicate the CLI is waiting for authentication or is stuck.'')),
             (''all_messages'', JNull)]
   \<and> timed_out sample_loads (sample_call slow_env False)
   \<and> \<not> return_all_messages (sample_call slow_env False)
   \<and> map_of [(''success'', JBool False),
             (''error'', JStr (''Gemini CLI execution timed out after 300 seconds. '' @
                ''This may indicate the CLI is waiting for authentication or is stuck.'')),
             (''all_messages'', JNull)] ''all_messages'' = Some JNull"
proof -
  let ?c = "sample_call slow_env False"
  let ?res = "[(''success'', JBool False),
             (''error'', JStr (''Gemini CLI execution timed out after 300 seconds. '' @
                ''This may indicate the CLI is waiting for authentication or is stuck.'')),
             (''all_messages'', JNull)]"
  have h: "fst (gemini sample_loads ?c) = Result ?res" by code_simp
  have t: "timed_out sample_loads ?c" by code_simp
  have r: "\<not> return_all_messages ?c" by (simp add: sample_call_def)
  from all_messages_key_presence [OF h] t r
  have "map_of ?res ''all_messages'' = Some JNull" by simp
  with h t r show ?thesis by blast
qed

section \<open>The reader thread\<close>

lemma read_loop_passes:
  "passes loads full i pre \<Longrightarrow>
   read_loop loads full i (map ReadLine pre @ rest) =
     (relayed full i pre @ fst (read_loop loads full (i + length pre) rest),
      snd (read_loop loads full (i + length pre) rest))"
  by (induction pre arbitrary: i) (auto simp: goes_on_def Let_def split_beta)

lemma read_loop_stop:
  "stops_at loads full i line \<Longrightarrow>
   read_loop loads full i (ReadLine line # rest) =
     ([RRead line, RPut (Some (strip line)) (Some 1) True, RSleep (3/10), RTerminate], Finished)"
  by (simp add: stops_at_def)

lemma read_loop_decoder_raises:
  "\<not> full i \<Longrightarrow> is_turn_completed loads (strip line) = Inl error \<Longrightarrow>
   read_loop loads full i (ReadLine line # rest) =
     ([RRead line, RPut (Some (strip line)) (Some 1) True], Propagated (str_exc error))"
  by simp

lemma filter_read_relayed: "filter is_read (relayed full i ls) = map RRead ls"
  by (induction ls arbitrary: i) simp_all

lemma filter_marker_relayed: "filter is_marker_put (relayed full i ls) = []"
  by (induction ls arbitrary: i) simp_all

lemma read_loop_no_marker: "filter is_marker_put (fst (read_loop loads full i rs)) = []"
  by (induction loads full i rs rule: read_loop.induct)
     (auto simp: Let_def split_beta split: sum.splits bool.splits)

lemma read_loop_line_puts:
  "x \<in> set (fst (read_loop loads full i rs)) \<Longrightarrow> is_line_put x \<Longrightarrow> relay_bound x = Within 1"
  by (induction loads full i rs rule: read_loop.induct)
     (auto simp: Let_def split_beta split: if_splits sum.splits bool.splits)

lemma read_output_marker:
  assumes "x \<in> set (fst (read_output loads full stdout))" and "is_marker_put x"
  shows "x = RPut None None True"
proof (cases stdout)
  case None
  with assms show ?thesis by (simp add: read_output_def)
next
  case (Some rs)
  obtain ops' e' where rl: "read_loop loads full 0 rs = (ops', e')"
    by (cases "read_loop loads full 0 rs")
  have "x \<notin> set ops'"
    using read_loop_no_marker [of loads full 0 rs] rl assms(2) by (auto simp: filter_empty_conv)
  with assms Some rl show ?thesis
    by (cases e') (auto simp: read_output_def)
qed

lemma stream_shape:
  "\<exists>pre. passes loads full i pre \<and>
     (stream = map ReadLine pre
      \<or> (\<exists>m rest. stream = map ReadLine pre @ ReadError m # rest)
      \<or> (\<exists>line rest. stream = map ReadLine pre @ ReadLine line # rest \<and>
            (stops_at loads full (i + length pre) line
             \<or> (\<not> full (i + length pre) \<and>
                 (\<exists>error. is_turn_completed loads (strip line) = Inl error)))))"
proof (induction stream arbitrary: i)
  case Nil
  have "passes loads full i []" by simp
  then show ?case by (intro exI [of _ "[]"]) simp
next
  case (Cons r stream)
  show ?case
  proof (cases r)
    case (ReadError m)
    then show ?thesis by (intro exI [of _ "[]"]) simp
  next
    case (ReadLine line)
    show ?thesis
    proof (cases "goes_on loads full i line")
      case False
      then have nf: "\<not> full i" and nc: "is_turn_completed loads (strip line) \<noteq> Inr False"
        by (simp_all add: goes_on_def)
      have "stops_at loads full i line
          \<or> (\<not> full i \<and> (\<exists>error. is_turn_completed loads (strip line) = Inl error))"
      proof (cases "is_turn_completed loads (strip line)")
        case (Inl error)
        with nf show ?thesis by simp
      next
        case (Inr b)
        with nc have b by (cases b) simp_all
        with Inr nf show ?thesis by (simp add: stops_at_def)
      qed
      with ReadLine show ?thesis by (intro exI [of _ "[]"]) simp
    next
      case True
      from Cons.IH [of "Suc i"] obtain pre where
        p: "passes loads full (Suc i) pre" and
        s: "stream = map ReadLine pre
          \<or> (\<exists>m rest. stream = map ReadLine pre @ ReadError m # rest)
          \<or> (\<exists>line rest. stream = map ReadLine pre @ ReadLine line # rest \<and>
                (stops_at loads full (Suc i + length pre) line
                 \<or> (\<not> full (Suc i + length pre) \<and>
                     (\<exists>error. is_turn_completed loads (strip line) = Inl error))))"
        by blast
      have P: "passes loads full i (line # pre)" using True p by simp
      have Q: "r # stream = map ReadLine (line # pre)
          \<or> (\<exists>m rest. r # stream = map ReadLine (line # pre) @ ReadError m # rest)
          \<or> (\<exists>l rest. r # stream = map ReadLine (line # pre) @ ReadLine l # rest \<and>
                (stops_at loads full (i + length (line # pre)) l
                 \<or> (\<not> full (i + length (line # pre)) \<and>
                     (\<exists>error. is_turn_completed loads (strip l) = Inl error))))"
        using s ReadLine by auto
      show ?thesis by (rule exI [of _ "line # pre"], rule conjI, rule P, rule Q)
    qed
  qed
qed

lemma poll_loop_gets:
  "x \<in> set (performed (fst (poll_loop t sc))) \<Longrightarrow> is_get x \<Longrightarrow> x = QGet (1/2)"
  by (induction t sc rule: poll_loop.induct)
     (auto simp: split_beta split: if_splits get_outcome.splits)

lemma poll_loop_first_get:
  "elapsed \<le> of_int t \<Longrightarrow>
   \<exists>ops. performed (fst (poll_loop t ((elapsed, g) # rest))) = QGet (1/2) # ops"
  by (cases g) (auto simp: split_beta)

lemma performed_append: "performed (a @ b) = performed a @ performed b"
  by (induction a rule: performed.induct) simp_all

lemma performed_drain: "performed (drain q) = replicate (length q) QGetNowait"
  by (induction q rule: drain.induct) simp_all

lemma performed_cleanup:
  "performed (cleanup w) = Wait 5 # (if w then [] else [Kill, Wait 2]) @ [Join 5]"
  by (simp add: cleanup_def)

lemma performed_run_shell_command:
  "popen_error en = None \<Longrightarrow>
   performed (fst (run_shell_command t en)) =
     performed (fst (poll_loop t (sched en))) @
     (if snd (poll_loop t (sched en)) = Returned
      then performed (cleanup (waited en)) @ performed (drain (residual en)) else [])"
  by (cases "poll_loop t (sched en)"; cases "snd (poll_loop t (sched en))")
     (auto simp: run_shell_command_def performed_append)

text \<open>
  C1, as written: the reader sleeps, terminates the process and stops reading at every
  completion event, also when the queue was full. It fails: with the queue full during
  the \<^verbatim>\<open>put\<close> of the completion event, the reader goes on to the next line and never
  calls \<^verbatim>\<open>terminate()\<close>.
\<close>

theorem dropped_completion_counterexample:
  "is_turn_completed sample_loads (strip line_completed) = Inr True
   \<and> read_output sample_loads first_full (Some [ReadLine line_completed, ReadLine line_world]) =
       ([RRead line_completed, RPut (Some (strip line_completed)) (Some 1) False,
         RRead line_world, RPut (Some (strip line_world)) (Some 1) True,
         RClose, RPut None None True], Finished)"
  by code_simp

text \<open>
  C1, amended. At the first completion event whose \<^verbatim>\<open>put\<close> succeeds, reached after lines
  that were dropped on a full queue or were enqueued and answered \<^verbatim>\<open>False\<close> by the
  completion test, the reader sleeps 0.3 seconds, calls \<^verbatim>\<open>terminate()\<close> and reads no
  further line: its remaining actions are closing stdout and putting the marker. (A
  completion event dropped on a full queue is not inspected.)
\<close>

theorem completion_event_stops_reader:
  assumes "passes loads full 0 pre" and "stops_at loads full (length pre) line"
  shows "read_output loads full (Some (map ReadLine pre @ ReadLine line # rest)) =
           (relayed full 0 pre @
              [RRead line, RPut (Some (strip line)) (Some 1) True, RSleep (3/10), RTerminate,
               RClose, RPut None None True], Finished)
       \<and> filter is_read
           (fst (read_output loads full (Some (map ReadLine pre @ ReadLine line # rest))))
           = map RRead (pre @ [line])"
proof -
  have "read_loop loads full 0 (map ReadLine pre @ ReadLine line # rest) =
      (relayed full 0 pre @
        [RRead line, RPut (Some (strip line)) (Some 1) True, RSleep (3/10), RTerminate], Finished)"
    using read_loop_passes [OF assms(1), of "ReadLine line # rest"] read_loop_stop [OF assms(2)]
    by simp
  then have "read_output loads full (Some (map ReadLine pre @ ReadLine line # rest)) =
           (relayed full 0 pre @
              [RRead line, RPut (Some (strip line)) (Some 1) True, RSleep (3/10), RTerminate,
               RClose, RPut None None True], Finished)"
    by (simp add: read_output_def)
  then show ?thesis by (simp add: filter_read_relayed)
qed

theorem completion_event_stops_reader_witness:
  "passes sample_loads first_full 0 [line_completed, line_hello]
   \<and> stops_at sample_loads first_full 2 line_completed
   \<and> read_output sample_loads first_full
       (Some [ReadLine line_completed, ReadLine line_hello, ReadLine line_completed,
              ReadLine line_world]) =
       ([RRead line_completed, RPut (Some (strip line_completed)) (Some 1) False,
         RRead line_hello, RPut (Some (strip line_hello)) (Some 1) True,
         RRead line_completed, RPut (Some (strip line_completed)) (Some 1) True,
         RSleep (3/10), RTerminate, RClose, RPut None None True], Finished)"
proof -
  have h1: "passes sample_loads first_full 0 [line_completed, line_hello]" by code_simp
  have h2: "stops_at sample_loads first_full (length [line_completed, line_hello]) line_completed"
    by code_simp
  have h2n: "stops_at sample_loads first_full 2 line_completed"
    using h2 by (simp add: numeral_2_eq_2)
  have f: "first_full 0" "\<not> first_full (Suc 0)" by (simp_all add: first_full_def)
  from completion_event_stops_reader [OF h1 h2, of "[ReadLine line_world]"] h1 h2n f
  show ?thesis by simp
qed

text \<open>
  C2, as written: the marker is enqueued exactly once also when reading raises. It
  fails: when \<^verbatim>\<open>readline\<close> raises, stdout is closed and the exception leaves the thread;
  no marker is put.
\<close>

theorem read_error_no_marker_counterexample:
  "read_output sample_loads never_full
     (Some [ReadLine line_hello, ReadError ''invalid start byte'']) =
     ([RRead line_hello, RPut (Some (strip line_hello)) (Some 1) True, RClose],
      Propagated ''invalid start byte'')
   \<and> filter is_marker_put (fst (read_output sample_loads never_full
       (Some [ReadLine line_hello, ReadError ''invalid start byte'']))) = []"
  by code_simp

text \<open>
  C2, amended. Let the reader have passed the lines \<open>pre\<close> (each dropped on a full
  queue, or enqueued and not the completion event). If the stream ends there, or the next
  line is an enqueued completion event, the reader closes stdout and puts the marker
  exactly once, as its last action; a process without stdout gets the marker alone. If
  instead \<^verbatim>\<open>readline\<close> raises, or the completion test lets an exception of the decoder
  through, the reader closes stdout as its last action, the exception leaves the thread
  and no marker is put. Every stream has one of these four shapes.
\<close>

theorem marker_after_normal_end_only:
  assumes "passes loads full 0 pre"
  shows "read_output loads full None = ([RPut None None True], Finished)
     \<and> read_output loads full (Some (map ReadLine pre)) =
         (relayed full 0 pre @ [RClose, RPut None None True], Finished)
     \<and> (stops_at loads full (length pre) line \<longrightarrow>
         read_output loads full (Some (map ReadLine pre @ ReadLine line # rest)) =
           (relayed full 0 pre @
              [RRead line, RPut (Some (strip line)) (Some 1) True, RSleep (3/10), RTerminate,
               RClose, RPut None None True], Finished))
     \<and> read_output loads full (Some (map ReadLine pre @ ReadError m # rest)) =
         (relayed full 0 pre @ [RClose], Propagated m)
     \<and> (\<not> full (length pre) \<and> is_turn_completed loads (strip line) = Inl error \<longrightarrow>
         read_output loads full (Some (map ReadLine pre @ ReadLine line # rest)) =
           (relayed full 0 pre @ [RRead line, RPut (Some (strip line)) (Some 1) True, RClose],
            Propagated (str_exc error)))
     \<and> filter is_marker_put (relayed full 0 pre) = []
     \<and> (\<forall>stream. \<exists>ls. passes loads full 0 ls \<and>
          (stream = map ReadLine ls
           \<or> (\<exists>m rest. stream = map ReadLine ls @ ReadError m # rest)
           \<or> (\<exists>line rest. stream = map ReadLine ls @ ReadLine line # rest \<and>
                 (stops_at loads full (length ls) line
                  \<or> (\<not> full (length ls) \<and>
                      (\<exists>error. is_turn_completed loads (strip line) = Inl error))))))"
proof -
  note p = read_loop_passes [OF assms]
  have a: "read_output loads full None = ([RPut None None True], Finished)"
    by (simp add: read_output_def)
  have b: "read_output loads full (Some (map ReadLine pre)) =
         (relayed full 0 pre @ [RClose, RPut None None True], Finished)"
    using p [of "[]"] by (simp add: read_output_def)
  have c: "read_output loads full (Some (map ReadLine pre @ ReadLine line # rest)) =
           (relayed full 0 pre @
              [RRead line, RPut (Some (strip line)) (Some 1) True, RSleep (3/10), RTerminate,
               RClose, RPut None None True], Finished)"
    if "stops_at loads full (length pre) line"
    using p [of "ReadLine line # rest"] read_loop_stop [OF that]
    by (simp add: read_output_def)
  have d: "read_output loads full (Some (map ReadLine pre @ ReadError m # rest)) =
         (relayed full 0 pre @ [RClose], Propagated m)"
    using p [of "ReadError m # rest"] by (simp add: read_output_def)
  have e: "read_output loads full (Some (map ReadLine pre @ ReadLine line # rest)) =
           (relayed full 0 pre @ [RRead line, RPut (Some (strip line)) (Some 1) True, RClose],
            Propagated (str_exc error))"
    if "\<not> full (length pre)" "is_turn_completed loads (strip line) = Inl error"
    using p [of "ReadLine line # rest"] that
      read_loop_decoder_raises [where full = full and i = "length pre" and loads = loads
        and line = line and error = error and rest = rest]
    by (simp add: read_output_def)
  have f: "filter is_marker_put (relayed full 0 pre) = []" by (rule filter_marker_relayed)
  have g: "\<exists>ls. passes loads full 0 ls \<and>
          (stream = map ReadLine ls
           \<or> (\<exists>m rest. stream = map ReadLine ls @ ReadError m # rest)
           \<or> (\<exists>line rest. stream = map ReadLine ls @ ReadLine line # rest \<and>
                 (stops_at loads full (length ls) line
                  \<or> (\<not> full (length ls) \<and>
                      (\<exists>error. is_turn_completed loads (strip line) = Inl error)))))" for stream
    using stream_shape [of loads full 0 stream] by simp
  show ?thesis using a b c d e f g by blast
qed

theorem marker_after_normal_end_only_witness:
  "passes sample_loads never_full 0 [line_init, line_hello]
   \<and> read_output sample_loads never_full (Some [ReadLine line_init, ReadLine line_hello]) =
       ([RRead line_init, RPut (Some (strip line_init)) (Some 1) True,
         RRead line_hello, RPut (Some (strip line_hello)) (Some 1) True,
         RClose, RPut None None True], Finished)
   \<and> read_output sample_loads never_full
       (Some [ReadLine line_init, ReadLine line_hello, ReadError ''invalid start byte'',
              ReadLine line_world]) =
       ([RRead line_init, RPut (Some (strip line_init)) (Some 1) True,
         RRead line_hello, RPut (Some (strip line_hello)) (Some 1) True,
         RClose], Propagated ''invalid start byte'')
   \<and> is_turn_completed sample_loads (strip line_deep) = Inl (RecursionError deep_message)
   \<and> read_output sample_loads never_full
       (Some [ReadLine line_init, ReadLine line_hello, ReadLine line_deep, ReadLine line_world]) =
       ([RRead line_init, RPut (Some (strip line_init)) (Some 1) True,
         RRead line_hello, RPut (Some (strip line_hello)) (Some 1) True,
         RRead line_deep, RPut (Some (strip line_deep)) (Some 1) True,
         RClose], Propagated deep_message)"
proof -
  let ?pre = "[line_init, line_hello]"
  have h: "passes sample_loads never_full 0 ?pre" by code_simp
  have nf: "\<not> never_full n" for n by (simp add: never_full_def)
  have dr: "is_turn_completed sample_loads (strip line_deep) = Inl (RecursionError deep_message)"
    by code_simp
  note t = marker_after_normal_end_only [OF h, where line = line_deep
      and rest = "[ReadLine line_world]" and m = "''invalid start byte''"
      and error = "RecursionError deep_message"]
  from t have A: "read_output sample_loads never_full (Some (map ReadLine ?pre)) =
         (relayed never_full 0 ?pre @ [RClose, RPut None None True], Finished)"
    by blast
  from t have B: "read_output sample_loads never_full
        (Some (map ReadLine ?pre @ ReadError ''invalid start byte'' # [ReadLine line_world])) =
         (relayed never_full 0 ?pre @ [RClose], Propagated ''invalid start byte'')"
    by blast
  from t nf dr have C: "read_output sample_loads never_full
        (Some (map ReadLine ?pre @ ReadLine line_deep # [ReadLine line_world])) =
         (relayed never_full 0 ?pre @
            [RRead line_deep, RPut (Some (strip line_deep)) (Some 1) True, RClose],
          Propagated (str_exc (RecursionError deep_message)))"
    by blast
  show ?thesis
    apply (intro conjI)
    apply (rule h)
    using A apply (simp add: nf)
    using B apply (simp add: nf)
    apply (rule dr)
    using C apply (simp add: nf)
    done
qed

text \<open>
  C8, as written: every enqueue of the reader, the marker included, has a timeout. It
  fails: the marker is put without a timeout, so that call blocks until the queue has
  room.
\<close>

theorem marker_put_unbounded_counterexample:
  "read_output sample_loads never_full (Some []) = ([RClose, RPut None None True], Finished)
   \<and> is_marker_put (RPut None None True)
   \<and> relay_bound (RPut None None True) = Unbounded"
  by code_simp

text \<open>
  C8, amended. Every enqueue of a line by the reader has the timeout of 1 second, and the
  marker is put without a timeout. On the consumer side, every iteration of the polling
  loop that passes the deadline check begins with a dequeue under the timeout of 0.5
  seconds, and the loop dequeues in no other way; the final drain makes one non-blocking
  dequeue per residual item and nothing else; the cleanup waits for the process at most
  5 seconds (kills it and waits at most 2 more when that fails) and joins the reader at
  most 5 seconds; the generator does these three in this order, the last two only after
  the polling loop has ended normally.
\<close>

theorem line_puts_and_gets_bounded:
  "(\<forall>x\<in>set (fst (read_output loads full stdout)).
      (is_line_put x \<longrightarrow> relay_bound x = Within 1)
    \<and> (is_marker_put x \<longrightarrow> relay_bound x = Unbounded))
 \<and> (\<forall>x\<in>set (performed (fst (poll_loop t sc))). is_get x \<longrightarrow> x = QGet (1/2))
 \<and> (\<forall>elapsed g rest. elapsed \<le> of_int t \<longrightarrow>
       (\<exists>ops. performed (fst (poll_loop t ((elapsed, g) # rest))) = QGet (1/2) # ops))
 \<and> performed (drain q) = replicate (length q) QGetNowait
 \<and> performed (cleanup w) = Wait 5 # (if w then [] else [Kill, Wait 2]) @ [Join 5]
 \<and> (popen_error en = None \<longrightarrow>
       performed (fst (run_shell_command t en)) =
         performed (fst (poll_loop t (sched en))) @
         (if snd (poll_loop t (sched en)) = Returned
          then performed (cleanup (waited en)) @ performed (drain (residual en)) else []))"
proof -
  have a: "relay_bound x = Within 1"
    if "x \<in> set (fst (read_output loads full stdout))" "is_line_put x" for x
  proof (cases stdout)
    case None
    with that show ?thesis by (auto simp: read_output_def)
  next
    case (Some rs)
    with that have "x \<in> set (fst (read_loop loads full 0 rs))"
      by (auto simp: read_output_def split: prod.splits relay_end.splits)
    then show ?thesis using that(2) by (rule read_loop_line_puts)
  qed
  have b: "relay_bound x = Unbounded"
    if "x \<in> set (fst (read_output loads full stdout))" "is_marker_put x" for x
    using read_output_marker [OF that] by simp
  have c: "x = QGet (1/2)" if "x \<in> set (performed (fst (poll_loop t sc)))" "is_get x" for x
    using that by (rule poll_loop_gets)
  have d: "\<exists>ops. performed (fst (poll_loop t ((elapsed, g) # rest))) = QGet (1/2) # ops"
    if "elapsed \<le> of_int t" for elapsed g rest
    using that by (rule poll_loop_first_get)
  show ?thesis
    using a b c d performed_drain [of q] performed_cleanup [of w]
      performed_run_shell_command [of en t]
    by blast
qed

theorem line_puts_and_gets_bounded_witness:
  "RPut (Some (strip line_init)) (Some 1) True
     \<in> set (fst (read_output sample_loads never_full (Some [ReadLine line_init])))
   \<and> is_line_put (RPut (Some (strip line_init)) (Some 1) True)
   \<and> relay_bound (RPut (Some (strip line_init)) (Some 1) True) = Within 1
   \<and> popen_error (done_env\<lparr>residual := [Some text_world, None]\<rparr>) = None
   \<and> snd (poll_loop 300 (sched (done_env\<lparr>residual := [Some text_world, None]\<rparr>))) = Returned
   \<and> performed (fst (run_shell_command 300 (done_env\<lparr>residual := [Some text_world, None]\<rparr>))) =
       [QGet (1/2), QGet (1/2), QGet (1/2), QGet (1/2), QGet (1/2),
        Wait 5, Join 5, QGetNowait, QGetNowait]"
proof -
  let ?x = "RPut (Some (strip line_init)) (Some 1) True"
  let ?en = "done_env\<lparr>residual := [Some text_world, None]\<rparr>"
  have m: "?x \<in> set (fst (read_output sample_loads never_full (Some [ReadLine line_init])))"
    by code_simp
  have p: "is_line_put ?x" by simp
  have n: "popen_error ?en = None" by (simp add: done_env_def)
  have r: "snd (poll_loop 300 (sched ?en)) = Returned" by code_simp
  have pl: "performed (fst (poll_loop 300 (sched ?en))) =
      [QGet (1/2), QGet (1/2), QGet (1/2), QGet (1/2), QGet (1/2)]" by code_simp
  have w: "waited ?en" "residual ?en = [Some text_world, None]" by (simp_all add: done_env_def)
  note t = line_puts_and_gets_bounded [of sample_loads never_full "Some [ReadLine line_init]"
      300 "sched ?en" "residual ?en" "waited ?en" ?en]
  from t m p have A: "relay_bound ?x = Within 1" by blast
  from t n have "performed (fst (run_shell_command 300 ?en)) =
         performed (fst (poll_loop 300 (sched ?en))) @
         (if snd (poll_loop 300 (sched ?en)) = Returned
          then performed (cleanup (waited ?en)) @ performed (drain (residual ?en)) else [])"
    by blast
  moreover from t have "performed (drain (residual ?en)) = replicate (length (residual ?en)) QGetNowait"
    and "performed (cleanup (waited ?en)) =
      Wait 5 # (if waited ?en then [] else [Kill, Wait 2]) @ [Join 5]"
    by blast+
  ultimately have B: "performed (fst (run_shell_command 300 ?en)) =
       [QGet (1/2), QGet (1/2), QGet (1/2), QGet (1/2), QGet (1/2),
        Wait 5, Join 5, QGetNowait, QGetNowait]"
    unfolding r pl using w by (simp add: numeral_2_eq_2)
  show ?thesis
    apply (intro conjI)
    apply (rule m)
    apply (rule p)
    apply (rule A)
    apply (rule n)
    apply (rule r)
    apply (rule B)
    done
qed

end
